theory Spec2Isabelle
  imports Main
begin

section \<open>Python values and exceptions\<close>

text \<open>
  The values that \<^verbatim>\<open>contrib/generate.py\<close> reads off the SDK modules and hands to
  \<^verbatim>\<open>json.dumps\<close>. A \<^verbatim>\<open>str\<close> is the list of its code points. \<open>PTuple\<close> is a tuple,
  \<open>PDict\<close> a dict in insertion order, \<open>PObject t\<close> any object of a type \<open>t\<close> that the JSON
  encoder has no mapping for (a set, bytes, a class instance). The values are trees: a
  container that holds itself is not among them.

  A finite float is given by the digits that \<^verbatim>\<open>repr\<close> prints for it: \<open>FNum neg m e\<close> is
  the float whose shortest decimal is \<open>m\<close> times ten to the \<open>e\<close>, negated when \<open>neg\<close>
  (so \<open>FNum True 0 0\<close> is \<^verbatim>\<open>-0.0\<close>); \<open>FInf\<close> is an infinity and \<open>FNaN\<close> not-a-number.
\<close>

datatype flt = FNum bool nat int | FInf bool | FNaN

datatype py =
    PNone
  | PBool bool
  | PInt int
  | PFloat flt
  | PStr "nat list"
  | PList "py list"
  | PTuple "py list"
  | PDict "(py \<times> py) list"
  | PObject string

text \<open>An ASCII text as a \<^verbatim>\<open>str\<close>.\<close>

definition ustr :: "string \<Rightarrow> nat list" where
  "ustr s = map of_char s"

datatype exn =
    TypeError
  | ValueError
  | RecursionError
  | AttributeError
  | FileExistsError
  | FileNotFoundError
  | IsADirectoryError
  | NotADirectoryError
  | SyntaxError
  | RuntimeError

text \<open>\<^verbatim>\<open>IOError\<close> is an alias of \<^verbatim>\<open>OSError\<close>; the four file errors are its subclasses.\<close>

fun is_IOError :: "exn \<Rightarrow> bool" where
  "is_IOError FileExistsError = True"
| "is_IOError FileNotFoundError = True"
| "is_IOError IsADirectoryError = True"
| "is_IOError NotADirectoryError = True"
| "is_IOError _ = False"

section \<open>The file system\<close>

text \<open>
  A path is its list of components, relative to the working directory \<open>[]\<close>, which
  always exists and is a directory. A file holds its text.
\<close>

type_synonym path = "string list"

datatype node = Dir | File string

type_synonym fs = "path \<Rightarrow> node option"

definition lookup :: "fs \<Rightarrow> path \<Rightarrow> node option" where
  "lookup fs p = (if p = [] then Some Dir else fs p)"

definition path_exists :: "fs \<Rightarrow> path \<Rightarrow> bool" where
  "path_exists fs p = (lookup fs p \<noteq> None)"

definition is_dir :: "fs \<Rightarrow> path \<Rightarrow> bool" where
  "is_dir fs p = (lookup fs p = Some Dir)"

text \<open>\<^verbatim>\<open>os.mkdir\<close>: one directory, whose parent must be a directory.\<close>

definition os_mkdir :: "fs \<Rightarrow> path \<Rightarrow> exn + fs" where
  "os_mkdir fs p =
     (if lookup fs p \<noteq> None then Inl FileExistsError
      else case lookup fs (butlast p) of
             None \<Rightarrow> Inl FileNotFoundError
           | Some (File t) \<Rightarrow> Inl NotADirectoryError
           | Some Dir \<Rightarrow> Inr (fs(p \<mapsto> Dir)))"

text \<open>
  \<^verbatim>\<open>Path.mkdir(exist_ok=True)\<close> and \<^verbatim>\<open>Path.mkdir(parents=True, exist_ok=True)\<close> of
  \<^verbatim>\<open>pathlib\<close>: a missing parent is created first, an existing directory is accepted,
  any other error of \<^verbatim>\<open>os.mkdir\<close> is raised again.
\<close>

definition mkdir_exist_ok :: "fs \<Rightarrow> path \<Rightarrow> exn + fs" where
  "mkdir_exist_ok fs p =
     (case os_mkdir fs p of
        Inr fs' \<Rightarrow> Inr fs'
      | Inl e \<Rightarrow>
          (if e = FileNotFoundError then Inl e
           else if is_dir fs p then Inr fs else Inl e))"

function mkdir_parents :: "fs \<Rightarrow> path \<Rightarrow> exn + fs" where
  "mkdir_parents fs p =
     (case os_mkdir fs p of
        Inr fs' \<Rightarrow> Inr fs'
      | Inl e \<Rightarrow>
          (if e = FileNotFoundError then
             (if p = [] then Inl e
              else (case mkdir_parents fs (butlast p) of
                      Inl e' \<Rightarrow> Inl e'
                    | Inr fs1 \<Rightarrow> mkdir_exist_ok fs1 p))
           else if is_dir fs p then Inr fs else Inl e))"
  by pat_completeness auto
termination
  by (relation "measure (\<lambda>(fs, p). length p)") auto

declare mkdir_parents.simps [simp del]

text \<open>
  \<^verbatim>\<open>with open(output_path, "w") as fd: fd.write(json_str)\<close>: the file is created or
  replaced; a directory cannot be opened, and the parent must be a directory.
\<close>

definition open_write :: "fs \<Rightarrow> path \<Rightarrow> string \<Rightarrow> exn + fs" where
  "open_write fs p text =
     (case lookup fs p of
        Some Dir \<Rightarrow> Inl IsADirectoryError
      | Some (File old) \<Rightarrow> Inr (fs(p \<mapsto> File text))
      | None \<Rightarrow>
          (case lookup fs (butlast p) of
             None \<Rightarrow> Inl FileNotFoundError
           | Some (File t) \<Rightarrow> Inl NotADirectoryError
           | Some Dir \<Rightarrow> Inr (fs(p \<mapsto> File text))))"

section \<open>Modules and the interpreter\<close>

text \<open>
  A loaded module is what reading an attribute off it gives: the value, or the
  exception raised (\<^verbatim>\<open>AttributeError\<close> for a name it lacks), and the module as it is
  afterwards. A module-level \<^verbatim>\<open>__getattr__\<close> may raise anything and may answer the same
  name differently the next time. \<open>plain ns\<close> is a module without one: its names are
  those of \<open>ns\<close>, at every read.
\<close>

codatatype module = Module (getattr: "string \<Rightarrow> (exn + py) \<times> module")

primcorec plain :: "(string \<Rightarrow> py option) \<Rightarrow> module" where
  "getattr (plain ns) =
     (\<lambda>name. (case ns name of None \<Rightarrow> Inl AttributeError | Some v \<Rightarrow> Inr v, plain ns))"

text \<open>
  \<^verbatim>\<open>hasattr(module, name)\<close> reads the attribute and turns \<^verbatim>\<open>AttributeError\<close>, and no
  other exception, into \<^verbatim>\<open>False\<close>.
\<close>

definition hasattr :: "module \<Rightarrow> string \<Rightarrow> (exn + bool) \<times> module" where
  "hasattr m name =
     (case getattr m name of
        (Inr v, m') \<Rightarrow> (Inr True, m')
      | (Inl e, m') \<Rightarrow> if e = AttributeError then (Inr False, m') else (Inl e, m'))"

text \<open>
  The interpreter is a parameter:
  \<^item> the suffixes \<^verbatim>\<open>importlib\<close> has a loader for besides \<^verbatim>\<open>.py\<close> and \<^verbatim>\<open>.pyc\<close>;
  \<^item> what \<^verbatim>\<open>spec.loader.exec_module(module)\<close> does for a file and a module name: the
    module or the exception raised, and the file system it leaves (the loader writes
    the byte code under \<^verbatim>\<open>__pycache__\<close>, and the module's code may do anything);
  \<^item> \<open>recursion_exceeded pretty lvl v\<close>: whether \<^verbatim>\<open>json.dumps\<close>, called by
    \<^verbatim>\<open>write_json_file\<close> with this \<open>pretty\<close>, hits the recursion limit when it comes to the
    value or dict key \<open>v\<close> nested \<open>lvl\<close> containers deep;
  \<^item> \<^verbatim>\<open>sys.get_int_max_str_digits()\<close>, where 0 is no limit.
\<close>

record python =
  extension_suffixes :: "string list"
  exec_module :: "fs \<Rightarrow> path \<Rightarrow> string \<Rightarrow> (exn + module) \<times> fs"
  recursion_exceeded :: "bool \<Rightarrow> nat \<Rightarrow> py \<Rightarrow> bool"
  int_max_str_digits :: nat

section \<open>The JSON encoder (\<^verbatim>\<open>json.dumps\<close>)\<close>

text \<open>
  \<^verbatim>\<open>json.dumps(data)\<close> and \<^verbatim>\<open>json.dumps(data, indent=2)\<close> as the standard library's
  \<^verbatim>\<open>json/encoder.py\<close> computes them, with its defaults \<^verbatim>\<open>ensure_ascii=True\<close>,
  \<^verbatim>\<open>skipkeys=False\<close>, \<^verbatim>\<open>allow_nan=True\<close>, \<^verbatim>\<open>sort_keys=False\<close>.
\<close>

definition hexdigit :: "nat \<Rightarrow> char" where
  "hexdigit d = ''0123456789abcdef'' ! (d mod 16)"

definition hex4 :: "nat \<Rightarrow> string" where
  "hex4 n = [hexdigit (n div 4096), hexdigit (n div 256), hexdigit (n div 16), hexdigit n]"

text \<open>
  \<^verbatim>\<open>py_encode_basestring_ascii\<close>: the two-character escapes of \<^verbatim>\<open>ESCAPE_DCT\<close>, the
  printable ASCII characters unchanged, every other code point below \<^verbatim>\<open>0x10000\<close> as
  \<^verbatim>\<open>\uXXXX\<close>, and a code point from \<^verbatim>\<open>0x10000\<close> on as the two escapes of its surrogate
  pair.
\<close>

definition escape_char :: "nat \<Rightarrow> string" where
  "escape_char n =
     (if n = 0x22 then [CHR 0x5C, CHR 0x22]
      else if n = 0x5C then [CHR 0x5C, CHR 0x5C]
      else if n = 0x0A then [CHR 0x5C, CHR ''n'']
      else if n = 0x0D then [CHR 0x5C, CHR ''r'']
      else if n = 0x09 then [CHR 0x5C, CHR ''t'']
      else if n = 0x08 then [CHR 0x5C, CHR ''b'']
      else if n = 0x0C then [CHR 0x5C, CHR ''f'']
      else if 0x20 \<le> n \<and> n \<le> 0x7E then [char_of n]
      else if n < 0x10000 then [CHR 0x5C, CHR ''u''] @ hex4 n
      else [CHR 0x5C, CHR ''u''] @ hex4 (0xD800 + ((n - 0x10000) div 1024) mod 1024)
           @ [CHR 0x5C, CHR ''u''] @ hex4 (0xDC00 + (n - 0x10000) mod 1024))"

definition encode_basestring_ascii :: "nat list \<Rightarrow> string" where
  "encode_basestring_ascii s = [CHR 0x22] @ concat (map escape_char s) @ [CHR 0x22]"

text \<open>
  \<^verbatim>\<open>int.__repr__\<close>: decimal digits, a minus sign for a negative number; \<^verbatim>\<open>ValueError\<close>
  when there are more digits than the interpreter's limit.
\<close>

definition digit_char :: "nat \<Rightarrow> char" where
  "digit_char d = ''0123456789'' ! (d mod 10)"

fun show_nat :: "nat \<Rightarrow> string" where
  "show_nat n = (if n < 10 then [digit_char n] else show_nat (n div 10) @ [digit_char n])"

declare show_nat.simps [simp del]

definition intstr :: "int \<Rightarrow> string" where
  "intstr i = (if i < 0 then CHR ''-'' # show_nat (nat (- i)) else show_nat (nat i))"

definition int_repr :: "nat \<Rightarrow> int \<Rightarrow> exn + string" where
  "int_repr max_digits i =
     (if max_digits \<noteq> 0 \<and> max_digits < length (show_nat (nat \<bar>i\<bar>)) then Inl ValueError
      else Inr (intstr i))"

text \<open>
  \<^verbatim>\<open>float.__repr__\<close>. The decimal \<open>m\<close> times ten to the \<open>e\<close> is first brought to the form
  in which \<open>m\<close> does not end in a zero. With \<open>n\<close> digits and the decimal point \<open>decpt\<close>
  places after the first of them, the text has an exponent when \<open>decpt\<close> is above 16 or
  not above -4 (then with one digit before the point and an exponent of two digits at
  least), and otherwise is the plain decimal, with \<^verbatim>\<open>.0\<close> for a whole number.
\<close>

function normal_float :: "nat \<Rightarrow> int \<Rightarrow> nat \<times> int" where
  "normal_float m e =
     (if m = 0 then (0, 0)
      else if m mod 10 = 0 then normal_float (m div 10) (e + 1)
      else (m, e))"
  by pat_completeness auto
termination
  by (relation "measure (\<lambda>(m, e). m)") auto

declare normal_float.simps [simp del]

definition exponent_text :: "int \<Rightarrow> string" where
  "exponent_text x =
     (if x < 0 then CHR ''-'' else CHR ''+'')
     # (if \<bar>x\<bar> < 10 then CHR ''0'' # show_nat (nat \<bar>x\<bar>) else show_nat (nat \<bar>x\<bar>))"

definition float_digits :: "nat \<Rightarrow> int \<Rightarrow> string" where
  "float_digits m e =
     (let ds = show_nat m; n = length ds; decpt = int n + e in
      if decpt \<le> - 4 \<or> 16 < decpt then
        hd ds # (if 1 < n then CHR ''.'' # tl ds else []) @ CHR ''e'' # exponent_text (decpt - 1)
      else if decpt \<le> 0 then ''0.'' @ replicate (nat (- decpt)) CHR ''0'' @ ds
      else if decpt < int n then take (nat decpt) ds @ CHR ''.'' # drop (nat decpt) ds
      else ds @ replicate (nat (decpt - int n)) CHR ''0'' @ ''.0'')"

fun float_repr :: "flt \<Rightarrow> string" where
  "float_repr (FNum neg m e) =
     (if neg then ''-'' else []) @ (case normal_float m e of (m', e') \<Rightarrow> float_digits m' e')"
| "float_repr (FInf neg) = (if neg then ''-Infinity'' else ''Infinity'')"
| "float_repr FNaN = ''NaN''"

text \<open>
  The encoder's configuration: \<open>indent\<close> is \<open>None\<close> or the number of spaces per level,
  and the two separators; and the two limits of the interpreter it runs in, the digits
  of an integer (0 for no limit) and the recursion limit, as the test of whether it is
  hit at a value or key \<open>v\<close> nested \<open>lvl\<close> containers deep.
\<close>

record encoder =
  indent :: "nat option"
  item_separator :: string
  key_separator :: string
  max_str_digits :: nat
  too_deep :: "nat \<Rightarrow> py \<Rightarrow> bool"

definition checked :: "bool \<Rightarrow> exn + 'a \<Rightarrow> exn + 'a" where
  "checked deep r = (if deep then Inl RecursionError else r)"

text \<open>\<^verbatim>\<open>'\n' + _indent * _current_indent_level\<close>, empty when there is no indent.\<close>

definition newline_indent :: "encoder \<Rightarrow> nat \<Rightarrow> string" where
  "newline_indent c lvl =
     (case indent c of None \<Rightarrow> [] | Some k \<Rightarrow> CHR 0x0A # replicate (k * lvl) CHR '' '')"

text \<open>
  A dict key: a \<open>str\<close> is kept, a float, \<open>True\<close>, \<open>False\<close>, \<open>None\<close> and an \<open>int\<close> are
  turned into text, any other key raises \<open>TypeError\<close>.
\<close>

fun key_text :: "encoder \<Rightarrow> py \<Rightarrow> exn + nat list" where
  "key_text c (PStr s) = Inr s"
| "key_text c (PFloat f) = Inr (ustr (float_repr f))"
| "key_text c (PBool True) = Inr (ustr ''true'')"
| "key_text c (PBool False) = Inr (ustr ''false'')"
| "key_text c PNone = Inr (ustr ''null'')"
| "key_text c (PInt i) =
     (case int_repr (max_str_digits c) i of Inl e \<Rightarrow> Inl e | Inr t \<Rightarrow> Inr (ustr t))"
| "key_text c _ = Inl TypeError"

text \<open>
  \<^verbatim>\<open>_iterencode\<close>, \<^verbatim>\<open>_iterencode_list\<close> and \<^verbatim>\<open>_iterencode_dict\<close>, with the chunks
  already joined. \<open>iterencode_items\<close> and \<open>iterencode_members\<close> are the bodies of the
  two \<^verbatim>\<open>for\<close> loops, at the indent level of the items; the first exception in
  traversal order is the one raised.
\<close>

fun iterencode :: "encoder \<Rightarrow> nat \<Rightarrow> py \<Rightarrow> exn + string"
  and iterencode_items :: "encoder \<Rightarrow> nat \<Rightarrow> py list \<Rightarrow> exn + string"
  and iterencode_members :: "encoder \<Rightarrow> nat \<Rightarrow> (py \<times> py) list \<Rightarrow> exn + string"
where
  "iterencode c lvl PNone = checked (too_deep c lvl PNone) (Inr ''null'')"
| "iterencode c lvl (PBool b) =
     checked (too_deep c lvl (PBool b)) (Inr (if b then ''true'' else ''false''))"
| "iterencode c lvl (PInt i) = checked (too_deep c lvl (PInt i)) (int_repr (max_str_digits c) i)"
| "iterencode c lvl (PFloat f) = checked (too_deep c lvl (PFloat f)) (Inr (float_repr f))"
| "iterencode c lvl (PStr s) = checked (too_deep c lvl (PStr s)) (Inr (encode_basestring_ascii s))"
| "iterencode c lvl (PList xs) =
     checked (too_deep c lvl (PList xs))
       (if xs = [] then Inr ''[]''
        else case iterencode_items c (Suc lvl) xs of
               Inl e \<Rightarrow> Inl e
             | Inr body \<Rightarrow>
                 Inr (''['' @ newline_indent c (Suc lvl) @ body @ newline_indent c lvl @ '']''))"
| "iterencode c lvl (PTuple xs) =
     checked (too_deep c lvl (PTuple xs))
       (if xs = [] then Inr ''[]''
        else case iterencode_items c (Suc lvl) xs of
               Inl e \<Rightarrow> Inl e
             | Inr body \<Rightarrow>
                 Inr (''['' @ newline_indent c (Suc lvl) @ body @ newline_indent c lvl @ '']''))"
| "iterencode c lvl (PDict kvs) =
     checked (too_deep c lvl (PDict kvs))
       (if kvs = [] then Inr ''{}''
        else case iterencode_members c (Suc lvl) kvs of
               Inl e \<Rightarrow> Inl e
             | Inr body \<Rightarrow>
                 Inr (''{'' @ newline_indent c (Suc lvl) @ body @ newline_indent c lvl @ ''}''))"
| "iterencode c lvl (PObject t) = checked (too_deep c lvl (PObject t)) (Inl TypeError)"
| "iterencode_items c lvl [] = Inr []"
| "iterencode_items c lvl (x # xs) =
     (case iterencode c lvl x of
        Inl e \<Rightarrow> Inl e
      | Inr s \<Rightarrow>
          (if xs = [] then Inr s
           else (case iterencode_items c lvl xs of
                   Inl e \<Rightarrow> Inl e
                 | Inr r \<Rightarrow> Inr (s @ item_separator c @ newline_indent c lvl @ r))))"
| "iterencode_members c lvl [] = Inr []"
| "iterencode_members c lvl ((k, v) # kvs) =
     (case checked (too_deep c lvl k) (key_text c k) of
        Inl e \<Rightarrow> Inl e
      | Inr ks \<Rightarrow>
          (case iterencode c lvl v of
             Inl e \<Rightarrow> Inl e
           | Inr s \<Rightarrow>
               (if kvs = [] then Inr (encode_basestring_ascii ks @ key_separator c @ s)
                else (case iterencode_members c lvl kvs of
                        Inl e \<Rightarrow> Inl e
                      | Inr r \<Rightarrow>
                          Inr (encode_basestring_ascii ks @ key_separator c @ s
                               @ item_separator c @ newline_indent c lvl @ r)))))"

text \<open>
  The two calls of \<^verbatim>\<open>write_json_file\<close>. Without \<^verbatim>\<open>indent\<close> the separators default to
  \<^verbatim>\<open>(', ', ': ')\<close>; with an indent the item separator defaults to \<^verbatim>\<open>','\<close>.
\<close>

definition json_dumps :: "python \<Rightarrow> bool \<Rightarrow> py \<Rightarrow> exn + string" where
  "json_dumps py pretty data =
     (if pretty
      then iterencode \<lparr>indent = Some 2, item_separator = '','', key_separator = '': '',
                       max_str_digits = int_max_str_digits py,
                       too_deep = recursion_exceeded py True\<rparr> 0 data
      else iterencode \<lparr>indent = None, item_separator = '', '', key_separator = '': '',
                       max_str_digits = int_max_str_digits py,
                       too_deep = recursion_exceeded py False\<rparr> 0 data)"

section \<open>Loading a module\<close>

definition endswith :: "string \<Rightarrow> string \<Rightarrow> bool" where
  "endswith s suf = (length suf \<le> length s \<and> drop (length s - length suf) s = suf)"

definition has_loader :: "python \<Rightarrow> string \<Rightarrow> bool" where
  "has_loader py name = list_ex (endswith name) ([''.py'', ''.pyc''] @ extension_suffixes py)"

text \<open>
  \<^verbatim>\<open>find_module(path, module_name)\<close>, with the file system it leaves. \<open>Inr None\<close> is the
  \<^verbatim>\<open>return None\<close>, \<open>Inl e\<close> an exception that leaves the function: nothing in it catches
  what \<^verbatim>\<open>spec.loader.exec_module(module)\<close> raises.
\<close>

definition find_module ::
  "python \<Rightarrow> fs \<Rightarrow> path \<Rightarrow> string \<Rightarrow> (exn + module option) \<times> fs" where
  "find_module py fs path0 module_name =
     (if \<not> path_exists fs path0 then (Inr None, fs)
      else
        (case (if is_dir fs path0
               then (let module_path = path0 @ [module_name @ ''.py'']
                     in if \<not> path_exists fs module_path then None else Some module_path)
               else Some path0) of
           None \<Rightarrow> (Inr None, fs)
         | Some path1 \<Rightarrow>
             (if \<not> has_loader py (last path1) then (Inr None, fs)
              else (case exec_module py fs path1 module_name of
                      (Inl e, fs') \<Rightarrow> (Inl e, fs')
                    | (Inr module, fs') \<Rightarrow> (Inr (Some module), fs')))))"

section \<open>Extracting the fit objects\<close>

text \<open>
  A dict is an association list in insertion order; \<open>dict_set\<close> is
  \<^verbatim>\<open>d[k] = v\<close> and \<open>dict_get\<close> is \<^verbatim>\<open>d.get(k)\<close>, which gives \<^verbatim>\<open>None\<close> for a missing key.
\<close>

fun dict_set :: "('k \<times> 'v) list \<Rightarrow> 'k \<Rightarrow> 'v \<Rightarrow> ('k \<times> 'v) list" where
  "dict_set [] k v = [(k, v)]"
| "dict_set ((k', v') # d) k v =
     (if k' = k then (k, v) # d else (k', v') # dict_set d k v)"

definition dict_get :: "(string \<times> py) list \<Rightarrow> string \<Rightarrow> py" where
  "dict_get d k = (case map_of d k of None \<Rightarrow> PNone | Some v \<Rightarrow> v)"

text \<open>
  One \<^verbatim>\<open>if hasattr(fit_module, name): objects[name] = fit_module.name\<close>: the attribute
  is read twice, and either read may raise.
\<close>

definition set_if_present ::
  "string \<Rightarrow> (string \<times> py) list \<Rightarrow> module \<Rightarrow> (exn + (string \<times> py) list) \<times> module" where
  "set_if_present name objects fit_module =
     (case hasattr fit_module name of
        (Inl e, m1) \<Rightarrow> (Inl e, m1)
      | (Inr False, m1) \<Rightarrow> (Inr objects, m1)
      | (Inr True, m1) \<Rightarrow>
          (case getattr m1 name of
             (Inl e, m2) \<Rightarrow> (Inl e, m2)
           | (Inr v, m2) \<Rightarrow> (Inr (dict_set objects name v), m2)))"

definition extract_fit_objects :: "module \<Rightarrow> (exn + (string \<times> py) list) \<times> module" where
  "extract_fit_objects fit_module =
     (case set_if_present ''BASE_TYPE'' [] fit_module of
        (Inl e, m) \<Rightarrow> (Inl e, m)
      | (Inr objects, m) \<Rightarrow>
     (case set_if_present ''FIELD_TYPE_TO_BASE_TYPE'' objects m of
        (Inl e, m) \<Rightarrow> (Inl e, m)
      | (Inr objects, m) \<Rightarrow>
     (case set_if_present ''BASE_TYPE_DEFINITIONS'' objects m of
        (Inl e, m) \<Rightarrow> (Inl e, m)
      | (Inr objects, m) \<Rightarrow>
          set_if_present ''NUMERIC_FIELD_TYPES'' objects m)))"

section \<open>Writing a JSON file\<close>

text \<open>
  What the tool prints, one constructor for each \<^verbatim>\<open>print\<close> of the source:
  \<^item> \<open>Err_module m p\<close>: \<^verbatim>\<open>Error: Could not find or load {m} module at {p}\<close> (stderr);
  \<^item> \<open>Err_no_Profile\<close>: \<^verbatim>\<open>Error: The profile module does not contain a 'Profile' object\<close>
    (stderr);
  \<^item> \<open>Err_no_fit_objects\<close>: \<^verbatim>\<open>Error: Could not extract required objects from fit module\<close>
    (stderr);
  \<^item> \<open>Err_write p e\<close>: \<^verbatim>\<open>Error: Failed to write {p}: {e}\<close> (stderr);
  \<^item> \<open>Warn_missing f\<close>: \<^verbatim>\<open>Warning: Could not find data for {f}\<close> (stderr);
  \<^item> \<open>Out_profile p\<close>: \<^verbatim>\<open>Successfully wrote profile data to {p}\<close>;
  \<^item> \<open>Out_fit f p\<close>: \<^verbatim>\<open>Successfully wrote {f} to {p}\<close>;
  \<^item> \<open>Out_all_done d\<close>: \<^verbatim>\<open>All files successfully exported to directory: {d}\<close>.
\<close>

datatype msg =
    Err_module string path
  | Err_no_Profile
  | Err_no_fit_objects
  | Err_write path exn
  | Warn_missing string
  | Out_profile path
  | Out_fit string path
  | Out_all_done path

record world =
  files :: fs
  printed :: "msg list"

definition emit :: "msg \<Rightarrow> world \<Rightarrow> world" where
  "emit m w = w\<lparr>printed := printed w @ [m]\<rparr>"

text \<open>
  The \<^verbatim>\<open>except (TypeError, ValueError, IOError)\<close> clause: a caught exception is
  reported and gives \<^verbatim>\<open>False\<close>, any other one leaves the function.
\<close>

definition caught :: "exn \<Rightarrow> bool" where
  "caught e \<longleftrightarrow> e = TypeError \<or> e = ValueError \<or> is_IOError e"

definition on_error :: "exn \<Rightarrow> path \<Rightarrow> world \<Rightarrow> (exn + bool) \<times> world" where
  "on_error e output_path w =
     (if caught e
      then (Inr False, emit (Err_write output_path e) w)
      else (Inl e, w))"

definition write_json_file ::
  "python \<Rightarrow> py \<Rightarrow> path \<Rightarrow> bool \<Rightarrow> world \<Rightarrow> (exn + bool) \<times> world" where
  "write_json_file py data output_path pretty w =
     (case json_dumps py pretty data of
        Inl e \<Rightarrow> on_error e output_path w
      | Inr json_str \<Rightarrow>
          (case mkdir_parents (files w) (butlast output_path) of
             Inl e \<Rightarrow> on_error e output_path w
           | Inr fs1 \<Rightarrow>
               (case open_write fs1 output_path json_str of
                  Inl e \<Rightarrow> on_error e output_path (w\<lparr>files := fs1\<rparr>)
                | Inr fs2 \<Rightarrow> (Inr True, w\<lparr>files := fs2\<rparr>))))"

section \<open>The command-line tool\<close>

record args =
  arg_path :: path
  arg_output :: path
  arg_pretty :: bool

text \<open>
  How the process ends: \<^verbatim>\<open>main\<close> returns (exit code 0), \<^verbatim>\<open>sys.exit(n)\<close>, or an
  exception that nothing catches (a traceback and exit code 1).
\<close>

datatype outcome = Returned | SysExit int | Uncaught exn

fun exit_code :: "outcome \<Rightarrow> int" where
  "exit_code Returned = 0"
| "exit_code (SysExit n) = n"
| "exit_code (Uncaught e) = 1"

text \<open>
  The loop \<^verbatim>\<open>for filename, data in fit_files.items()\<close>, with the flag \<^verbatim>\<open>success\<close>. An
  exception that \<^verbatim>\<open>write_json_file\<close> does not catch leaves the loop.
\<close>

fun write_fit_files ::
  "python \<Rightarrow> path \<Rightarrow> bool \<Rightarrow> (string \<times> py) list \<Rightarrow> bool \<Rightarrow> world
     \<Rightarrow> (exn + bool) \<times> world" where
  "write_fit_files py output_dir pretty [] success w = (Inr success, w)"
| "write_fit_files py output_dir pretty ((filename, data) # rest) success w =
     (if data \<noteq> PNone then
        (let file_path = output_dir @ [filename]
         in case write_json_file py data file_path pretty w of
              (Inl e, w') \<Rightarrow> (Inl e, w')
            | (Inr True, w') \<Rightarrow>
                write_fit_files py output_dir pretty rest success
                  (emit (Out_fit filename file_path) w')
            | (Inr False, w') \<Rightarrow> write_fit_files py output_dir pretty rest False w')
      else write_fit_files py output_dir pretty rest success (emit (Warn_missing filename) w))"

definition fit_files :: "(string \<times> py) list \<Rightarrow> (string \<times> py) list" where
  "fit_files fit_objects =
     [(''base_type.json'', dict_get fit_objects ''BASE_TYPE''),
      (''field_type_to_base_type.json'', dict_get fit_objects ''FIELD_TYPE_TO_BASE_TYPE''),
      (''base_type_definitions.json'', dict_get fit_objects ''BASE_TYPE_DEFINITIONS''),
      (''numeric_field_types.json'', dict_get fit_objects ''NUMERIC_FIELD_TYPES'')]"

text \<open>
  \<^verbatim>\<open>main()\<close>, after \<^verbatim>\<open>parser.parse_args()\<close>. The file system goes from one step to
  the next: the second module is loaded in what loading the first one left, and the
  output directory is made in what loading both left. \<^verbatim>\<open>profile_module.Profile\<close> is
  read a second time where it is passed to \<^verbatim>\<open>write_json_file\<close>.
\<close>

definition main :: "python \<Rightarrow> args \<Rightarrow> fs \<Rightarrow> outcome \<times> world" where
  "main py a fs0 =
     (case find_module py fs0 (arg_path a) ''profile'' of
        (Inl e, fs1) \<Rightarrow> (Uncaught e, \<lparr>files = fs1, printed = []\<rparr>)
      | (Inr None, fs1) \<Rightarrow>
          (SysExit 1, \<lparr>files = fs1, printed = [Err_module ''profile'' (arg_path a)]\<rparr>)
      | (Inr (Some profile_module), fs1) \<Rightarrow>
     (case hasattr profile_module ''Profile'' of
        (Inl e, profile_module) \<Rightarrow> (Uncaught e, \<lparr>files = fs1, printed = []\<rparr>)
      | (Inr False, profile_module) \<Rightarrow> (SysExit 1, \<lparr>files = fs1, printed = [Err_no_Profile]\<rparr>)
      | (Inr True, profile_module) \<Rightarrow>
     (case find_module py fs1 (arg_path a) ''fit'' of
        (Inl e, fs2) \<Rightarrow> (Uncaught e, \<lparr>files = fs2, printed = []\<rparr>)
      | (Inr None, fs2) \<Rightarrow>
          (SysExit 1, \<lparr>files = fs2, printed = [Err_module ''fit'' (arg_path a)]\<rparr>)
      | (Inr (Some fit_module), fs2) \<Rightarrow>
     (case extract_fit_objects fit_module of
        (Inl e, fit_module) \<Rightarrow> (Uncaught e, \<lparr>files = fs2, printed = []\<rparr>)
      | (Inr fit_objects, fit_module) \<Rightarrow>
          if fit_objects = []
          then (SysExit 1, \<lparr>files = fs2, printed = [Err_no_fit_objects]\<rparr>)
          else
            (let output_dir = arg_output a in
             case mkdir_parents fs2 output_dir of
               Inl e \<Rightarrow> (Uncaught e, \<lparr>files = fs2, printed = []\<rparr>)
             | Inr fs3 \<Rightarrow>
                 (let profile_path = output_dir @ [''profile.json''] in
                  case getattr profile_module ''Profile'' of
                    (Inl e, profile_module) \<Rightarrow> (Uncaught e, \<lparr>files = fs3, printed = []\<rparr>)
                  | (Inr profile, profile_module) \<Rightarrow>
                 (case write_json_file py profile profile_path (arg_pretty a)
                         \<lparr>files = fs3, printed = []\<rparr> of
                    (Inl e, w) \<Rightarrow> (Uncaught e, w)
                  | (Inr False, w) \<Rightarrow> (SysExit 1, w)
                  | (Inr True, w) \<Rightarrow>
                      (case write_fit_files py output_dir (arg_pretty a)
                              (fit_files fit_objects) True
                              (emit (Out_profile profile_path) w) of
                         (Inl e, w) \<Rightarrow> (Uncaught e, w)
                       | (Inr True, w) \<Rightarrow> (Returned, emit (Out_all_done output_dir) w)
                       | (Inr False, w) \<Rightarrow> (SysExit 1, w)))))))))"

section \<open>Forms of the JSON text\<close>

text \<open>
  The two encoders of \<^verbatim>\<open>json_dumps\<close> taken without the limits of an interpreter, and a
  third one for what the specification calls the minimal compact form: no indent and the
  separators \<^verbatim>\<open>','\<close> and \<^verbatim>\<open>':'\<close>, so that the text has no character that is not needed.
  \<open>unlimited c\<close> is the encoder \<open>c\<close> without the limits.
\<close>

definition unlimited :: "encoder \<Rightarrow> encoder" where
  "unlimited c = c\<lparr>max_str_digits := 0, too_deep := (\<lambda>lvl v. False)\<rparr>"

definition compact_encoder :: encoder where
  "compact_encoder =
     \<lparr>indent = None, item_separator = '', '', key_separator = '': '',
      max_str_digits = 0, too_deep = (\<lambda>lvl v. False)\<rparr>"

definition pretty_encoder :: encoder where
  "pretty_encoder =
     \<lparr>indent = Some 2, item_separator = '','', key_separator = '': '',
      max_str_digits = 0, too_deep = (\<lambda>lvl v. False)\<rparr>"

definition minimal_encoder :: encoder where
  "minimal_encoder =
     \<lparr>indent = None, item_separator = '','', key_separator = '':'',
      max_str_digits = 0, too_deep = (\<lambda>lvl v. False)\<rparr>"

definition minimal_compact_form :: "py \<Rightarrow> exn + string" where
  "minimal_compact_form data = iterencode minimal_encoder 0 data"

text \<open>The characters of a number or of one of the words \<^verbatim>\<open>null\<close>, \<^verbatim>\<open>true\<close>, \<^verbatim>\<open>false\<close>.\<close>

definition plain_char :: "char \<Rightarrow> bool" where
  "plain_char c \<longleftrightarrow>
     c \<noteq> CHR 0x22 \<and> c \<noteq> CHR 0x5C \<and> c \<noteq> CHR '' '' \<and> c \<noteq> CHR 0x0A \<and> c \<noteq> CHR '','' \<and> c \<noteq> CHR '':''"

definition sep_ok :: "encoder \<Rightarrow> bool" where
  "sep_ok c \<longleftrightarrow> (item_separator c = '','' \<or> item_separator c = '', '')
               \<and> (key_separator c = '':'' \<or> key_separator c = '': '')"

text \<open>
  Two scanners of a JSON text that know where a string literal begins and ends (a
  backslash inside a literal takes the next character with it). \<open>strip_ws\<close> deletes the
  spaces and newlines outside the literals; \<open>space_separators\<close> puts one space after every
  comma and colon outside the literals.
\<close>

fun strip_ws :: "string \<Rightarrow> string" and strip_in :: "string \<Rightarrow> string" where
  "strip_ws [] = []"
| "strip_ws (c # cs) =
     (if c = CHR 0x22 then c # strip_in cs
      else if c = CHR '' '' \<or> c = CHR 0x0A then strip_ws cs
      else c # strip_ws cs)"
| "strip_in [] = []"
| "strip_in [c] = [c]"
| "strip_in (c # d # cs) =
     (if c = CHR 0x22 then c # strip_ws (d # cs)
      else if c = CHR 0x5C then c # d # strip_in cs
      else c # strip_in (d # cs))"

fun space_separators :: "string \<Rightarrow> string" and space_in :: "string \<Rightarrow> string" where
  "space_separators [] = []"
| "space_separators (c # cs) =
     (if c = CHR 0x22 then c # space_in cs
      else if c = CHR '','' \<or> c = CHR '':'' then c # CHR '' '' # space_separators cs
      else c # space_separators cs)"
| "space_in [] = []"
| "space_in [c] = [c]"
| "space_in (c # d # cs) =
     (if c = CHR 0x22 then c # space_separators (d # cs)
      else if c = CHR 0x5C then c # d # space_in cs
      else c # space_in (d # cs))"

text \<open>
  Indentation by two spaces, in the specification's words, as a layout in lines. The
  lines of a non-empty list are \<^verbatim>\<open>[\<close>, then the lines of its items shifted right by two
  spaces, a comma after the last line of every item but the last, then \<^verbatim>\<open>]\<close>. A dict is
  laid out alike between \<^verbatim>\<open>{\<close> and \<^verbatim>\<open>}\<close>, each member starting with its key and
  \<^verbatim>\<open>': '\<close>. An empty list or dict and every scalar is one line. \<open>join_lines\<close> puts a
  newline between the lines; \<open>join_at lvl\<close> also puts the indent of level \<open>lvl\<close> after it.
\<close>

definition shift :: "string list \<Rightarrow> string list" where
  "shift ls = map (\<lambda>l. ''  '' @ l) ls"

fun with_commas :: "string list list \<Rightarrow> string list" where
  "with_commas [] = []"
| "with_commas [b] = b"
| "with_commas (b # bs) = butlast b @ [last b @ '',''] @ with_commas bs"

definition after_key :: "string \<Rightarrow> string list \<Rightarrow> string list" where
  "after_key k b = (k @ '': '' @ hd b) # tl b"

definition key_literal :: "py \<Rightarrow> string" where
  "key_literal k =
     (case key_text minimal_encoder k of Inl e \<Rightarrow> [] | Inr ks \<Rightarrow> encode_basestring_ascii ks)"

fun layout :: "py \<Rightarrow> string list"
  and layout_items :: "py list \<Rightarrow> string list list"
  and layout_members :: "(py \<times> py) list \<Rightarrow> string list list"
where
  "layout PNone = [''null'']"
| "layout (PBool b) = [if b then ''true'' else ''false'']"
| "layout (PInt i) = [intstr i]"
| "layout (PFloat f) = [float_repr f]"
| "layout (PStr s) = [encode_basestring_ascii s]"
| "layout (PList xs) =
     (if xs = [] then [''[]''] else ''['' # shift (with_commas (layout_items xs)) @ ['']''])"
| "layout (PTuple xs) =
     (if xs = [] then [''[]''] else ''['' # shift (with_commas (layout_items xs)) @ ['']''])"
| "layout (PDict kvs) =
     (if kvs = [] then [''{}''] else ''{'' # shift (with_commas (layout_members kvs)) @ [''}''])"
| "layout (PObject t) = [[]]"
| "layout_items [] = []"
| "layout_items (x # xs) = layout x # layout_items xs"
| "layout_members [] = []"
| "layout_members ((k, v) # kvs) = after_key (key_literal k) (layout v) # layout_members kvs"

fun join_at :: "nat \<Rightarrow> string list \<Rightarrow> string" where
  "join_at lvl [] = []"
| "join_at lvl [l] = l"
| "join_at lvl (l # ls) = l @ newline_indent pretty_encoder lvl @ join_at lvl ls"

definition join_lines :: "string list \<Rightarrow> string" where
  "join_lines ls = join_at 0 ls"

section \<open>A sample interpreter\<close>

text \<open>
  An interpreter and a few module texts for the concrete runs below (\<^verbatim>\<open>deep(1000)\<close> stands
  for a list nested 1000 deep). A text of the table gives the plain module with the names
  beside it, and the loader then writes the byte
  code beside the source, under \<^verbatim>\<open>__pycache__\<close>; any other text is a syntax error, and
  nothing is written. \<^verbatim>\<open>json.dumps\<close> hits the recursion limit at a container nested 994
  containers deep, and an integer may have 4300 digits.
\<close>

text \<open>A value nested \<open>n\<close> lists deep.\<close>

fun nest :: "nat \<Rightarrow> py \<Rightarrow> py" where
  "nest 0 v = v"
| "nest (Suc n) v = PList [nest n v]"

definition sample_sources :: "(string \<times> (string \<times> py) list) list" where
  "sample_sources =
     [(''Profile = dict(a=1)'', [(''Profile'', PDict [(PStr (ustr ''a''), PInt 1)])]),
      (''Profile = set()'', [(''Profile'', PObject ''set'')]),
      (''BASE_TYPE = dict(enum=0)'', [(''BASE_TYPE'', PDict [(PStr (ustr ''enum''), PInt 0)])]),
      (''BASE_TYPE = None; NUMERIC_FIELD_TYPES = []'',
         [(''BASE_TYPE'', PNone), (''NUMERIC_FIELD_TYPES'', PList [])]),
      (''BASE_TYPE = set(); NUMERIC_FIELD_TYPES = [1]'',
         [(''BASE_TYPE'', PObject ''set''), (''NUMERIC_FIELD_TYPES'', PList [PInt 1])]),
      (''BASE_TYPE = deep(1000); NUMERIC_FIELD_TYPES = [1]'',
         [(''BASE_TYPE'', nest 1000 (PInt 1)), (''NUMERIC_FIELD_TYPES'', PList [PInt 1])])]"

definition cache_file :: "path \<Rightarrow> path" where
  "cache_file file =
     butlast file @ [''__pycache__'', take (length (last file) - 3) (last file) @ ''.cpython-311.pyc'']"

definition write_cache :: "fs \<Rightarrow> path \<Rightarrow> string \<Rightarrow> fs" where
  "write_cache fs file src =
     fs(butlast file @ [''__pycache__''] \<mapsto> Dir, cache_file file \<mapsto> File (''code of '' @ src))"

fun is_container :: "py \<Rightarrow> bool" where
  "is_container (PList xs) = True"
| "is_container (PTuple xs) = True"
| "is_container (PDict kvs) = True"
| "is_container v = False"

definition sample_python :: python where
  "sample_python =
     \<lparr>extension_suffixes = [''.so''],
      exec_module = (\<lambda>fs file name.
         case fs file of
           None \<Rightarrow> (Inl FileNotFoundError, fs)
         | Some Dir \<Rightarrow> (Inl IsADirectoryError, fs)
         | Some (File src) \<Rightarrow>
             (case map_of sample_sources src of
                None \<Rightarrow> (Inl SyntaxError, fs)
              | Some attrs \<Rightarrow> (Inr (plain (map_of attrs)), write_cache fs file src))),
      recursion_exceeded = (\<lambda>pretty lvl v. 994 \<le> lvl \<and> is_container v),
      int_max_str_digits = 4300\<rparr>"

text \<open>
  A directory \<^verbatim>\<open>sdk\<close> holding \<^verbatim>\<open>profile.py\<close> and \<^verbatim>\<open>fit.py\<close> with the given texts, and one
  holding \<^verbatim>\<open>profile.py\<close> alone.
\<close>

definition sdk_dir :: "string \<Rightarrow> string \<Rightarrow> fs" where
  "sdk_dir profile_src fit_src =
     map_of [([''sdk''], Dir),
             ([''sdk'', ''profile.py''], File profile_src),
             ([''sdk'', ''fit.py''], File fit_src)]"

text \<open>The same directory after the loader has written the byte code of both modules.\<close>

definition sdk_loaded :: "string \<Rightarrow> string \<Rightarrow> fs" where
  "sdk_loaded profile_src fit_src =
     write_cache (write_cache (sdk_dir profile_src fit_src) [''sdk'', ''profile.py''] profile_src)
       [''sdk'', ''fit.py''] fit_src"

definition sdk_profile_only :: fs where
  "sdk_profile_only =
     map_of [([''sdk''], Dir), ([''sdk'', ''profile.py''], File ''Profile = dict(a=1)'')]"

definition sample_args :: args where
  "sample_args = \<lparr>arg_path = [''sdk''], arg_output = [''out''], arg_pretty = False\<rparr>"

section \<open>Vocabulary of the properties\<close>

text \<open>The four names that \<^verbatim>\<open>extract_fit_objects\<close> looks for, in the order of its tests.\<close>

definition fit_names :: "string list" where
  "fit_names =
     [''BASE_TYPE'', ''FIELD_TYPE_TO_BASE_TYPE'', ''BASE_TYPE_DEFINITIONS'',
      ''NUMERIC_FIELD_TYPES'']"

text \<open>
  What one call of \<^verbatim>\<open>write_json_file\<close> comes to when the parent of the target is a
  directory already: the text that is written, or the exception raised in the \<^verbatim>\<open>try\<close>
  block (\<open>written_text\<close>). For one entry of \<^verbatim>\<open>fit_files\<close>, the file system after it
  (\<open>fit_store\<close>), the line it prints (\<open>fit_report\<close>) and whether it leaves the flag
  \<^verbatim>\<open>success\<close> as it is (\<open>fit_ok\<close>). An entry \<open>escapes\<close> when \<^verbatim>\<open>write_json_file\<close> does not
  catch what its serialization raises; the entries \<open>attempted\<close> to the end are those
  before the first that escapes.
\<close>

definition written_text :: "python \<Rightarrow> bool \<Rightarrow> fs \<Rightarrow> path \<Rightarrow> py \<Rightarrow> exn + string" where
  "written_text py pretty fs p data =
     (case json_dumps py pretty data of
        Inl e \<Rightarrow> Inl e
      | Inr s \<Rightarrow> if fs p = Some Dir then Inl IsADirectoryError else Inr s)"

definition fit_store :: "python \<Rightarrow> bool \<Rightarrow> path \<Rightarrow> string \<times> py \<Rightarrow> fs \<Rightarrow> fs" where
  "fit_store py pretty output_dir item fs =
     (if snd item = PNone then fs
      else case written_text py pretty fs (output_dir @ [fst item]) (snd item) of
             Inl e \<Rightarrow> fs
           | Inr s \<Rightarrow> fs(output_dir @ [fst item] \<mapsto> File s))"

definition fit_report :: "python \<Rightarrow> bool \<Rightarrow> fs \<Rightarrow> path \<Rightarrow> string \<times> py \<Rightarrow> msg" where
  "fit_report py pretty fs output_dir item =
     (if snd item = PNone then Warn_missing (fst item)
      else case written_text py pretty fs (output_dir @ [fst item]) (snd item) of
             Inl e \<Rightarrow> Err_write (output_dir @ [fst item]) e
           | Inr s \<Rightarrow> Out_fit (fst item) (output_dir @ [fst item]))"

definition fit_ok :: "python \<Rightarrow> bool \<Rightarrow> fs \<Rightarrow> path \<Rightarrow> string \<times> py \<Rightarrow> bool" where
  "fit_ok py pretty fs output_dir item =
     (snd item = PNone
      \<or> \<not> isl (written_text py pretty fs (output_dir @ [fst item]) (snd item)))"

definition escapes :: "python \<Rightarrow> bool \<Rightarrow> string \<times> py \<Rightarrow> bool" where
  "escapes py pretty item \<longleftrightarrow>
     snd item \<noteq> PNone \<and> json_dumps py pretty (snd item) = Inl RecursionError"

definition attempted :: "python \<Rightarrow> bool \<Rightarrow> (string \<times> py) list \<Rightarrow> (string \<times> py) list" where
  "attempted py pretty items = takeWhile (\<lambda>item. \<not> escapes py pretty item) items"

text \<open>
  The value \<^verbatim>\<open>main\<close> gets for a name through \<^verbatim>\<open>fit_objects.get\<close>: the attribute, or
  \<^verbatim>\<open>None\<close> when the module lacks it (\<open>attr_or_None\<close>); and the file each of the four
  names is written to, in the order of \<^verbatim>\<open>fit_files\<close> (\<open>fit_outputs\<close>).
\<close>

definition attr_or_None :: "(string \<Rightarrow> py option) \<Rightarrow> string \<Rightarrow> py" where
  "attr_or_None m n = (case m n of None \<Rightarrow> PNone | Some v \<Rightarrow> v)"

definition fit_outputs :: "(string \<times> string) list" where
  "fit_outputs =
     [(''BASE_TYPE'', ''base_type.json''),
      (''FIELD_TYPE_TO_BASE_TYPE'', ''field_type_to_base_type.json''),
      (''BASE_TYPE_DEFINITIONS'', ''base_type_definitions.json''),
      (''NUMERIC_FIELD_TYPES'', ''numeric_field_types.json'')]"

text \<open>
  For a module without \<^verbatim>\<open>__getattr__\<close>: each of the four names that it has, with the
  value, in the order of the tests.
\<close>

definition names_present :: "(string \<Rightarrow> py option) \<Rightarrow> (string \<times> py) list" where
  "names_present ns =
     concat (map (\<lambda>n. case ns n of None \<Rightarrow> [] | Some v \<Rightarrow> [(n, v)]) fit_names)"

text \<open>The five fixed names of the files the tool writes.\<close>

definition output_names :: "string list" where
  "output_names = ''profile.json'' # map snd fit_outputs"



section \<open>The exceptions of the encoder\<close>

lemma checked_simps [simp]:
  "checked d r = Inr s \<longleftrightarrow> \<not> d \<and> r = Inr s"
  "checked False r = r"
  "checked True r = Inl RecursionError"
  by (auto simp: checked_def)

lemma checked_Inl: "checked d r = Inl e \<Longrightarrow> e = RecursionError \<or> r = Inl e"
  by (auto simp: checked_def split: if_splits)

lemma int_repr_raises: "int_repr n i = Inl e \<Longrightarrow> e = ValueError"
  by (auto simp: int_repr_def split: if_splits)

lemma int_repr_text: "int_repr n i = Inr t \<Longrightarrow> t = intstr i"
  by (auto simp: int_repr_def split: if_splits)

lemma int_repr_unlimited [simp]: "int_repr 0 i = Inr (intstr i)"
  by (simp add: int_repr_def)

lemma key_text_raises: "key_text c k = Inl e \<Longrightarrow> e = TypeError \<or> e = ValueError"
  by (cases "(c, k)" rule: key_text.cases) (auto split: sum.splits dest: int_repr_raises)

lemma iterencode_raises:
  "iterencode c lvl v = Inl e \<Longrightarrow> e = TypeError \<or> e = ValueError \<or> e = RecursionError"
  "iterencode_items c lvl xs = Inl e \<Longrightarrow> e = TypeError \<or> e = ValueError \<or> e = RecursionError"
  "iterencode_members c lvl kvs = Inl e \<Longrightarrow> e = TypeError \<or> e = ValueError \<or> e = RecursionError"
  by (induction c lvl v and c lvl xs and c lvl kvs
      rule: iterencode_iterencode_items_iterencode_members.induct)
     (auto split: if_splits sum.splits dest!: checked_Inl dest: key_text_raises int_repr_raises)

lemma json_dumps_raises:
  "json_dumps py pretty data = Inl e \<Longrightarrow> e = TypeError \<or> e = ValueError \<or> e = RecursionError"
  by (auto simp: json_dumps_def dest: iterencode_raises(1) split: if_splits)

section \<open>Whitespace and lines of the JSON text\<close>

lemma hexdigit_in: "hexdigit d \<in> set ''0123456789abcdef''"
  unfolding hexdigit_def by (rule nth_mem) simp

lemma digit_char_in: "digit_char d \<in> set ''0123456789''"
  unfolding digit_char_def by (rule nth_mem) simp

lemma show_nat_digits: "set (show_nat n) \<subseteq> set ''0123456789''"
proof (induction n rule: show_nat.induct)
  case (1 n)
  show ?case
  proof (cases "n < 10")
    case True
    then show ?thesis using digit_char_in [of n] by (subst show_nat.simps) simp
  next
    case False
    then show ?thesis
      using "1.IH" digit_char_in [of n] by (subst show_nat.simps) simp
  qed
qed

lemma intstr_chars: "set (intstr i) \<subseteq> set ''-0123456789''"
proof -
  have "set (show_nat n) \<subseteq> set ''-0123456789''" for n
    using show_nat_digits [of n] by (rule subset_trans) simp
  then show ?thesis by (simp add: intstr_def)
qed

lemma show_nat_nonempty: "show_nat n \<noteq> []"
  by (subst show_nat.simps) simp

lemma digits_plain: "list_all plain_char (show_nat n)"
  using show_nat_digits [of n] by (auto simp: list_all_iff plain_char_def)

lemma intstr_plain: "list_all plain_char (intstr i)"
  using digits_plain by (simp add: intstr_def plain_char_def)

lemma exponent_text_plain: "list_all plain_char (exponent_text x)"
  using digits_plain by (simp add: exponent_text_def plain_char_def)

lemma float_digits_plain: "list_all plain_char (float_digits m e)"
proof -
  let ?ds = "show_nat m"
  have ds: "list_all plain_char ?ds" by (rule digits_plain)
  have hd: "plain_char (hd ?ds)"
    using ds show_nat_nonempty [of m] by (cases ?ds) auto
  have tl: "list_all plain_char (tl ?ds)"
    using ds show_nat_nonempty [of m] by (cases ?ds) auto
  have tk: "list_all plain_char (take k ?ds)" for k
    using ds by (auto simp: list_all_iff dest: in_set_takeD)
  have dr: "list_all plain_char (drop k ?ds)" for k
    using ds by (auto simp: list_all_iff dest: in_set_dropD)
  have rp: "list_all plain_char (replicate k CHR ''0'')" for k
    by (simp add: list_all_iff plain_char_def)
  have ch: "plain_char CHR ''.''" "plain_char CHR ''e''" "plain_char CHR ''0''"
    by (simp_all add: plain_char_def)
  show ?thesis
    unfolding float_digits_def Let_def
    using ds hd tl tk dr rp ch exponent_text_plain by simp
qed

lemma float_repr_plain: "list_all plain_char (float_repr f)"
proof (cases f)
  case (FNum neg m e)
  then show ?thesis using float_digits_plain by (simp add: plain_char_def split: prod.splits)
qed (simp_all add: plain_char_def)

lemma plain_chars:
  assumes "list_all plain_char t"
  shows "\<forall>c\<in>set t. c \<noteq> CHR 0x22 \<and> c \<noteq> CHR '' '' \<and> c \<noteq> CHR 0x0A"
    and "\<forall>c\<in>set t. c \<noteq> CHR 0x22 \<and> c \<noteq> CHR '','' \<and> c \<noteq> CHR '':''"
    and "CHR 0x0A \<notin> set t"
  using assms by (auto simp: list_all_iff plain_char_def)

lemma strip_ws_plain:
  "\<forall>c\<in>set t. c \<noteq> CHR 0x22 \<and> c \<noteq> CHR '' '' \<and> c \<noteq> CHR 0x0A \<Longrightarrow>
   strip_ws (t @ r) = t @ strip_ws r"
  by (induction t) auto

lemma strip_ws_space:
  "\<forall>c\<in>set t. c = CHR '' '' \<or> c = CHR 0x0A \<Longrightarrow> strip_ws (t @ r) = strip_ws r"
  by (induction t) auto

lemma strip_in_plain:
  "\<forall>c\<in>set t. c \<noteq> CHR 0x22 \<and> c \<noteq> CHR 0x5C \<Longrightarrow> r \<noteq> [] \<Longrightarrow>
   strip_in (t @ r) = t @ strip_in r"
proof (induction t)
  case Nil
  then show ?case by simp
next
  case (Cons c t)
  then obtain d cs where "t @ r = d # cs" by (cases "t @ r") auto
  then show ?case using Cons by simp
qed

lemma hexdigit_plain:
  "hexdigit d \<noteq> CHR 0x22" "hexdigit d \<noteq> CHR 0x5C" "hexdigit d \<noteq> CHR 0x0A"
  "hexdigit d \<noteq> CHR '' ''"
  using hexdigit_in [of d] by auto

lemma hex4_plain: "\<forall>x\<in>set (hex4 n). x \<noteq> CHR 0x22 \<and> x \<noteq> CHR 0x5C"
  by (simp add: hex4_def hexdigit_plain)

lemma char_of_printable:
  fixes n :: nat
  assumes "0x20 \<le> n" "n \<le> 0x7E"
  shows "of_char (char_of n) = n"
  using assms by simp

lemma printable_char:
  fixes n :: nat
  assumes "0x20 \<le> n" "n \<le> 0x7E" "char_of n = c"
  shows "n = of_char c"
proof -
  have "of_char (char_of n) = (of_char c :: nat)" by (simp only: assms(3))
  then show ?thesis using assms(1,2) by simp
qed

lemma printable_plain:
  fixes n :: nat
  assumes "0x20 \<le> n" "n \<le> 0x7E" "n \<noteq> 0x22" "n \<noteq> 0x5C"
  shows "char_of n \<noteq> CHR 0x22" "char_of n \<noteq> CHR 0x5C" "char_of n \<noteq> CHR 0x0A"
  using printable_char [OF assms(1,2), of "CHR 0x22"] printable_char [OF assms(1,2), of "CHR 0x5C"]
    printable_char [OF assms(1,2), of "CHR 0x0A"] assms
  by auto

lemma strip_in_escape:
  assumes "r \<noteq> []"
  shows "strip_in (escape_char c @ r) = escape_char c @ strip_in r"
proof -
  obtain d cs where r: "r = d # cs" using assms by (cases r) auto
  have u: "strip_in (CHR 0x5C # CHR ''u'' # hex4 n @ t) = CHR 0x5C # CHR ''u'' # hex4 n @ strip_in t"
    if "t \<noteq> []" for n t using strip_in_plain [OF hex4_plain that, of n] by simp
  have uu: "strip_in (CHR 0x5C # CHR ''u'' # hex4 n @ CHR 0x5C # CHR ''u'' # hex4 k @ r)
            = CHR 0x5C # CHR ''u'' # hex4 n @ CHR 0x5C # CHR ''u'' # hex4 k @ strip_in r" for n k
    using u [of "CHR 0x5C # CHR ''u'' # hex4 k @ r" n] u [OF assms, of k] by simp
  have two: "strip_in (CHR 0x5C # x # r) = CHR 0x5C # x # strip_in r" for x
    by simp
  have one: "strip_in (x # r) = x # strip_in r" if "x \<noteq> CHR 0x22" "x \<noteq> CHR 0x5C" for x
    using that by (simp add: r)
  show ?thesis
  proof (cases "0x20 \<le> c \<and> c \<le> 0x7E \<and> c \<noteq> 0x22 \<and> c \<noteq> 0x5C")
    case True
    then have "escape_char c = [char_of c]" by (simp add: escape_char_def)
    then show ?thesis using one [OF printable_plain(1,2)] True by simp
  next
    case False
    then show ?thesis
      unfolding escape_char_def using u [OF assms] uu two by auto
  qed
qed

lemma strip_in_escaped:
  "r \<noteq> [] \<Longrightarrow> strip_in (concat (map escape_char s) @ r) = concat (map escape_char s) @ strip_in r"
  by (induction s) (simp_all add: strip_in_escape)

lemma strip_in_quote: "strip_in (CHR 0x22 # r) = CHR 0x22 # strip_ws r"
  by (cases r) simp_all

lemma strip_ws_string:
  "strip_ws (encode_basestring_ascii s @ r) = encode_basestring_ascii s @ strip_ws r"
  by (simp add: encode_basestring_ascii_def strip_in_escaped strip_in_quote)

lemma strip_ws_intstr: "strip_ws (intstr i @ r) = intstr i @ strip_ws r"
  by (rule strip_ws_plain) (use intstr_chars [of i] in auto)

lemma strip_ws_float: "strip_ws (float_repr f @ r) = float_repr f @ strip_ws r"
  by (rule strip_ws_plain) (rule plain_chars(1) [OF float_repr_plain])

lemma strip_ws_newline_indent: "strip_ws (newline_indent c lvl @ r) = strip_ws r"
  by (rule strip_ws_space) (auto simp: newline_indent_def split: option.splits)

lemma strip_ws_separators:
  assumes "sep_ok c"
  shows "strip_ws (item_separator c @ r) = CHR '','' # strip_ws r"
    and "strip_ws (key_separator c @ r) = CHR '':'' # strip_ws r"
  using assms by (auto simp: sep_ok_def)

lemma minimal_newline_indent [simp]: "newline_indent minimal_encoder lvl = []"
  by (simp add: newline_indent_def minimal_encoder_def)

lemma minimal_separators [simp]:
  "item_separator minimal_encoder = '',''" "key_separator minimal_encoder = '':''"
  by (simp_all add: minimal_encoder_def)

lemma strip_ws_literals:
  "strip_ws (''null'' @ r) = ''null'' @ strip_ws r"
  "strip_ws (''true'' @ r) = ''true'' @ strip_ws r"
  "strip_ws (''false'' @ r) = ''false'' @ strip_ws r"
  "strip_ws (''[]'' @ r) = ''[]'' @ strip_ws r"
  "strip_ws (''{}'' @ r) = ''{}'' @ strip_ws r"
  by simp_all

lemma minimal_limits [simp]:
  "max_str_digits minimal_encoder = 0" "too_deep minimal_encoder lvl v = False"
  by (simp_all add: minimal_encoder_def)

lemma key_text_unlimited:
  "key_text c k = Inr ks \<Longrightarrow> max_str_digits c' = 0 \<Longrightarrow> key_text c' k = Inr ks"
  by (cases "(c, k)" rule: key_text.cases) (auto split: sum.splits dest: int_repr_text)

lemma strip_iterencode:
  "sep_ok c \<Longrightarrow> iterencode c lvl v = Inr s \<Longrightarrow>
     (\<forall>l. iterencode minimal_encoder l v = Inr (strip_ws s))
     \<and> (\<forall>r. strip_ws (s @ r) = strip_ws s @ strip_ws r)"
  "sep_ok c \<Longrightarrow> iterencode_items c lvl xs = Inr s \<Longrightarrow>
     (\<forall>l. iterencode_items minimal_encoder l xs = Inr (strip_ws s))
     \<and> (\<forall>r. strip_ws (s @ r) = strip_ws s @ strip_ws r)"
  "sep_ok c \<Longrightarrow> iterencode_members c lvl kvs = Inr s \<Longrightarrow>
     (\<forall>l. iterencode_members minimal_encoder l kvs = Inr (strip_ws s))
     \<and> (\<forall>r. strip_ws (s @ r) = strip_ws s @ strip_ws r)"
proof (induction c lvl v and c lvl xs and c lvl kvs arbitrary: s and s and s
    rule: iterencode_iterencode_items_iterencode_members.induct)
  case (1 c lvl)
  then show ?case by auto
next
  case (2 c lvl b)
  then show ?case by auto
next
  case (3 c lvl i)
  then show ?case
    using strip_ws_intstr [of i] strip_ws_intstr [of i "[]"] by (auto dest: int_repr_text)
next
  case (4 c lvl f)
  then show ?case using strip_ws_float [of f] strip_ws_float [of f "[]"] by auto
next
  case (5 c lvl str)
  then show ?case using strip_ws_string [of str] strip_ws_string [of str "[]"] by auto
next
  case (6 c lvl xs)
  show ?case
  proof (cases "xs = []")
    case True
    then show ?thesis using "6.prems" by auto
  next
    case False
    then obtain body where body: "iterencode_items c (Suc lvl) xs = Inr body"
      and s: "s = ''['' @ newline_indent c (Suc lvl) @ body @ newline_indent c lvl @ '']''"
      using "6.prems"(2) by (auto split: sum.splits)
    note IH = "6.IH" [OF False "6.prems"(1) body]
    have st: "strip_ws (s @ r) = ''['' @ strip_ws body @ '']'' @ strip_ws r" for r
      unfolding s using IH by (simp add: strip_ws_newline_indent)
    show ?thesis using IH st [of "[]"] st False by simp
  qed
next
  case (7 c lvl xs)
  show ?case
  proof (cases "xs = []")
    case True
    then show ?thesis using "7.prems" by auto
  next
    case False
    then obtain body where body: "iterencode_items c (Suc lvl) xs = Inr body"
      and s: "s = ''['' @ newline_indent c (Suc lvl) @ body @ newline_indent c lvl @ '']''"
      using "7.prems"(2) by (auto split: sum.splits)
    note IH = "7.IH" [OF False "7.prems"(1) body]
    have st: "strip_ws (s @ r) = ''['' @ strip_ws body @ '']'' @ strip_ws r" for r
      unfolding s using IH by (simp add: strip_ws_newline_indent)
    show ?thesis using IH st [of "[]"] st False by simp
  qed
next
  case (8 c lvl kvs)
  show ?case
  proof (cases "kvs = []")
    case True
    then show ?thesis using "8.prems" by auto
  next
    case False
    then obtain body where body: "iterencode_members c (Suc lvl) kvs = Inr body"
      and s: "s = ''{'' @ newline_indent c (Suc lvl) @ body @ newline_indent c lvl @ ''}''"
      using "8.prems"(2) by (auto split: sum.splits)
    note IH = "8.IH" [OF False "8.prems"(1) body]
    have st: "strip_ws (s @ r) = ''{'' @ strip_ws body @ ''}'' @ strip_ws r" for r
      unfolding s using IH by (simp add: strip_ws_newline_indent)
    show ?thesis using IH st [of "[]"] st False by simp
  qed
next
  case (9 c lvl t)
  then show ?case by simp
next
  case (10 c lvl)
  then show ?case by simp
next
  case (11 c lvl x xs)
  obtain sx where x: "iterencode c lvl x = Inr sx"
    using "11.prems"(2) by (auto split: sum.splits)
  note IHx = "11.IH"(1) [OF "11.prems"(1) x]
  show ?case
  proof (cases "xs = []")
    case True
    then have "s = sx" using "11.prems"(2) x by simp
    then show ?thesis using IHx True by simp
  next
    case False
    then obtain r0 where r0: "iterencode_items c lvl xs = Inr r0"
      and s: "s = sx @ item_separator c @ newline_indent c lvl @ r0"
      using "11.prems"(2) x by (auto split: sum.splits)
    note IHxs = "11.IH"(2) [OF x False "11.prems"(1) r0]
    have st: "strip_ws (s @ r) = strip_ws sx @ '','' @ strip_ws r0 @ strip_ws r" for r
      unfolding s using IHx IHxs
      by (simp add: strip_ws_separators [OF "11.prems"(1)] strip_ws_newline_indent)
    show ?thesis using IHx IHxs st [of "[]"] st False by simp
  qed
next
  case (12 c lvl)
  then show ?case by simp
next
  case (13 c lvl k v kvs)
  obtain ks where k: "checked (too_deep c lvl k) (key_text c k) = Inr ks"
    using "13.prems"(2) by (auto split: sum.splits)
  obtain sv where v: "iterencode c lvl v = Inr sv"
    using "13.prems"(2) k by (auto split: sum.splits)
  note IHv = "13.IH"(1) [OF k "13.prems"(1) v]
  have km: "key_text minimal_encoder k = Inr ks" using k by (auto intro: key_text_unlimited)
  show ?case
  proof (cases "kvs = []")
    case True
    then have s: "s = encode_basestring_ascii ks @ key_separator c @ sv"
      using "13.prems"(2) k v by simp
    have st: "strip_ws (s @ r) = encode_basestring_ascii ks @ '':'' @ strip_ws sv @ strip_ws r"
      for r unfolding s using IHv
      by (simp add: strip_ws_string strip_ws_separators [OF "13.prems"(1)])
    show ?thesis using IHv st [of "[]"] st True km by simp
  next
    case False
    then obtain r0 where r0: "iterencode_members c lvl kvs = Inr r0"
      and s: "s = encode_basestring_ascii ks @ key_separator c @ sv
                  @ item_separator c @ newline_indent c lvl @ r0"
      using "13.prems"(2) k v by (auto split: sum.splits)
    note IHkvs = "13.IH"(2) [OF k v False "13.prems"(1) r0]
    have st: "strip_ws (s @ r) = encode_basestring_ascii ks @ '':'' @ strip_ws sv
                @ '','' @ strip_ws r0 @ strip_ws r" for r
      unfolding s using IHv IHkvs
      by (simp add: strip_ws_string strip_ws_separators [OF "13.prems"(1)]
          strip_ws_newline_indent)
    show ?thesis using IHv IHkvs st [of "[]"] st False km by simp
  qed
qed

lemma unlimited_simps [simp]:
  "indent (unlimited c) = indent c" "item_separator (unlimited c) = item_separator c"
  "key_separator (unlimited c) = key_separator c" "max_str_digits (unlimited c) = 0"
  "too_deep (unlimited c) lvl v = False" "newline_indent (unlimited c) lvl = newline_indent c lvl"
  by (simp_all add: unlimited_def newline_indent_def)

lemma iterencode_unlimited:
  "iterencode c lvl v = Inr s \<Longrightarrow> iterencode (unlimited c) lvl v = Inr s"
  "iterencode_items c lvl xs = Inr s \<Longrightarrow> iterencode_items (unlimited c) lvl xs = Inr s"
  "iterencode_members c lvl kvs = Inr s \<Longrightarrow> iterencode_members (unlimited c) lvl kvs = Inr s"
proof (induction c lvl v and c lvl xs and c lvl kvs arbitrary: s and s and s
    rule: iterencode_iterencode_items_iterencode_members.induct)
  case (3 c lvl i)
  then show ?case by (auto dest: int_repr_text)
next
  case (13 c lvl k v kvs)
  obtain ks where k: "checked (too_deep c lvl k) (key_text c k) = Inr ks"
    using "13.prems" by (auto split: sum.splits)
  have ku: "key_text (unlimited c) k = Inr ks" using k by (auto intro: key_text_unlimited)
  obtain sv where v: "iterencode c lvl v = Inr sv"
    using "13.prems" k by (auto split: sum.splits)
  note IHv = "13.IH"(1) [OF k v]
  show ?case
  proof (cases "kvs = []")
    case True
    then show ?thesis using "13.prems" k v ku IHv by simp
  next
    case False
    then obtain r0 where r0: "iterencode_members c lvl kvs = Inr r0"
      using "13.prems" k v by (auto split: sum.splits)
    note IHkvs = "13.IH"(2) [OF k v False r0]
    show ?thesis using "13.prems" k v ku r0 IHv IHkvs False by simp
  qed
qed (auto split: sum.splits if_splits)

lemma json_dumps_encoders:
  "json_dumps py pretty v = Inr s \<Longrightarrow>
   iterencode (if pretty then pretty_encoder else compact_encoder) 0 v = Inr s"
proof -
  assume d: "json_dumps py pretty v = Inr s"
  let ?c = "\<lambda>p. \<lparr>indent = (if p then Some 2 else None),
                    item_separator = (if p then '','' else '', ''), key_separator = '': '',
                    max_str_digits = int_max_str_digits py,
                    too_deep = recursion_exceeded py p\<rparr>"
  have "iterencode (?c pretty) 0 v = Inr s" using d by (simp add: json_dumps_def split: if_splits)
  then have "iterencode (unlimited (?c pretty)) 0 v = Inr s" by (rule iterencode_unlimited)
  moreover have "unlimited (?c True) = pretty_encoder" "unlimited (?c False) = compact_encoder"
    by (simp_all add: unlimited_def pretty_encoder_def compact_encoder_def)
  ultimately show ?thesis by (cases pretty) simp_all
qed

lemma sep_ok_encoders: "sep_ok pretty_encoder" "sep_ok compact_encoder"
  by (simp_all add: sep_ok_def pretty_encoder_def compact_encoder_def)

lemma escape_char_no_newline: "CHR 0x0A \<notin> set (escape_char c)"
proof -
  have h: "CHR 0x0A \<notin> set (hex4 n)" for n
    by (simp add: hex4_def hexdigit_plain hexdigit_plain [symmetric])
  show ?thesis
  proof (cases "0x20 \<le> c \<and> c \<le> 0x7E \<and> c \<noteq> 0x22 \<and> c \<noteq> 0x5C")
    case True
    then have "escape_char c = [char_of c]" by (simp add: escape_char_def)
    then show ?thesis using printable_plain(3) [of c] True by simp
  next
    case False
    then show ?thesis using h by (auto simp: escape_char_def)
  qed
qed

lemma string_no_newline: "CHR 0x0A \<notin> set (encode_basestring_ascii s)"
  by (induction s) (auto simp: encode_basestring_ascii_def escape_char_no_newline)

lemma intstr_no_newline: "CHR 0x0A \<notin> set (intstr i)"
  using intstr_chars [of i] by auto

lemma float_no_newline: "CHR 0x0A \<notin> set (float_repr f)"
  by (rule plain_chars(3) [OF float_repr_plain])

lemma compact_limits [simp]:
  "max_str_digits compact_encoder = 0" "too_deep compact_encoder lvl v = False"
  "max_str_digits pretty_encoder = 0" "too_deep pretty_encoder lvl v = False"
  by (simp_all add: compact_encoder_def pretty_encoder_def)

lemma compact_no_newline:
  "iterencode compact_encoder lvl v = Inr s \<Longrightarrow> CHR 0x0A \<notin> set s"
  "iterencode_items compact_encoder lvl xs = Inr s \<Longrightarrow> CHR 0x0A \<notin> set s"
  "iterencode_members compact_encoder lvl kvs = Inr s \<Longrightarrow> CHR 0x0A \<notin> set s"
proof (induction "compact_encoder" lvl v and "compact_encoder" lvl xs
    and "compact_encoder" lvl kvs arbitrary: s and s and s
    rule: iterencode_iterencode_items_iterencode_members.induct)
qed (auto simp: string_no_newline intstr_no_newline float_no_newline newline_indent_def
       compact_encoder_def split: sum.splits if_splits)

lemma join_lines_newline:
  "join_lines [] = []" "join_lines [l] = l"
  "ls \<noteq> [] \<Longrightarrow> join_lines (l # ls) = l @ [CHR 0x0A] @ join_lines ls"
  by (cases ls; simp add: join_lines_def newline_indent_def pretty_encoder_def)+

lemma join_at_Cons: "ls \<noteq> [] \<Longrightarrow> join_at lvl (l # ls) = l @ newline_indent pretty_encoder lvl @ join_at lvl ls"
  by (cases ls) simp_all

lemma join_at_append:
  "a \<noteq> [] \<Longrightarrow> b \<noteq> [] \<Longrightarrow>
   join_at lvl (a @ b) = join_at lvl a @ newline_indent pretty_encoder lvl @ join_at lvl b"
proof (induction a)
  case Nil
  then show ?case by simp
next
  case (Cons l a)
  show ?case
  proof (cases "a = []")
    case True
    then show ?thesis using Cons.prems by (simp add: join_at_Cons)
  next
    case False
    then show ?thesis using Cons by (simp add: join_at_Cons)
  qed
qed

lemma newline_indent_Suc:
  "newline_indent pretty_encoder (Suc lvl) = newline_indent pretty_encoder lvl @ ''  ''"
proof -
  have "replicate n c @ [c, c] = c # c # replicate n c" for n and c :: char
    by (induction n) simp_all
  then show ?thesis by (simp add: newline_indent_def pretty_encoder_def)
qed

lemma join_at_shift:
  "ls \<noteq> [] \<Longrightarrow> join_at lvl (shift ls) = ''  '' @ join_at (Suc lvl) ls"
proof (induction ls)
  case Nil
  then show ?case by simp
next
  case (Cons l ls)
  show ?case
  proof (cases "ls = []")
    case True
    then show ?thesis by (simp add: shift_def)
  next
    case False
    then have "shift ls \<noteq> []" by (simp add: shift_def)
    then have "join_at lvl (shift (l # ls))
               = (''  '' @ l) @ newline_indent pretty_encoder lvl @ join_at lvl (shift ls)"
      by (simp add: shift_def join_at_Cons)
    then show ?thesis
      using Cons.IH [OF False] False by (simp add: join_at_Cons newline_indent_Suc)
  qed
qed

lemma join_at_last: "b \<noteq> [] \<Longrightarrow> join_at lvl (butlast b @ [last b @ x]) = join_at lvl b @ x"
proof (induction b)
  case Nil
  then show ?case by simp
next
  case (Cons l b)
  show ?case
  proof (cases "b = []")
    case True
    then show ?thesis by simp
  next
    case False
    then show ?thesis using Cons.IH [OF False] by (simp add: join_at_Cons)
  qed
qed

lemma join_at_after_key:
  "b \<noteq> [] \<Longrightarrow> join_at lvl (after_key k b) = k @ '': '' @ join_at lvl b"
  by (cases b; cases "tl b") (simp_all add: after_key_def)

lemma with_commas_nonempty: "bs \<noteq> [] \<Longrightarrow> hd bs \<noteq> [] \<Longrightarrow> with_commas bs \<noteq> []"
  by (cases bs; cases "tl bs") auto

lemma layout_nonempty: "layout v \<noteq> []"
  by (cases v) simp_all

lemma layout_items_nonempty: "xs \<noteq> [] \<Longrightarrow> with_commas (layout_items xs) \<noteq> []"
  by (cases xs) (simp_all add: with_commas_nonempty layout_nonempty)

lemma layout_members_nonempty: "kvs \<noteq> [] \<Longrightarrow> with_commas (layout_members kvs) \<noteq> []"
  by (cases kvs) (auto simp: with_commas_nonempty after_key_def)

lemma join_at_with_commas:
  "b \<noteq> [] \<Longrightarrow> bs \<noteq> [] \<Longrightarrow> with_commas bs \<noteq> [] \<Longrightarrow>
   join_at lvl (with_commas (b # bs))
   = join_at lvl b @ '','' @ newline_indent pretty_encoder lvl @ join_at lvl (with_commas bs)"
proof -
  assume b: "b \<noteq> []" and bs: "bs \<noteq> []" and w: "with_commas bs \<noteq> []"
  obtain c cs where "bs = c # cs" using bs by (cases bs) auto
  then have "with_commas (b # bs) = (butlast b @ [last b @ '','']) @ with_commas bs" by simp
  then show ?thesis
    using join_at_append [of "butlast b @ [last b @ '','']" "with_commas bs" lvl] w
      join_at_last [OF b, of lvl "'',''"]
    by simp
qed

lemma pretty_separators:
  "item_separator pretty_encoder = '',''" "key_separator pretty_encoder = '': ''"
  by (simp_all add: pretty_encoder_def)

lemma pretty_layout:
  "c = pretty_encoder \<Longrightarrow> iterencode c lvl v = Inr s \<Longrightarrow> s = join_at lvl (layout v)"
  "c = pretty_encoder \<Longrightarrow> iterencode_items c lvl xs = Inr s \<Longrightarrow>
     s = join_at lvl (with_commas (layout_items xs))"
  "c = pretty_encoder \<Longrightarrow> iterencode_members c lvl kvs = Inr s \<Longrightarrow>
     s = join_at lvl (with_commas (layout_members kvs))"
proof (induction c lvl v and c lvl xs and c lvl kvs arbitrary: s and s and s
    rule: iterencode_iterencode_items_iterencode_members.induct)
  case (1 c lvl)
  then show ?case by auto
next
  case (2 c lvl b)
  then show ?case by auto
next
  case (3 c lvl i)
  then show ?case by auto
next
  case (4 c lvl f)
  then show ?case by auto
next
  case (5 c lvl str)
  then show ?case by auto
next
  case (6 c lvl xs)
  show ?case
  proof (cases "xs = []")
    case True
    then show ?thesis using "6.prems"(2) [unfolded "6.prems"(1)] by auto
  next
    case False
    then obtain body where body: "iterencode_items pretty_encoder (Suc lvl) xs = Inr body"
      and s: "s = ''['' @ newline_indent pretty_encoder (Suc lvl) @ body
                  @ newline_indent pretty_encoder lvl @ '']''"
      using "6.prems"(2) [unfolded "6.prems"(1)] by (auto split: sum.splits)
    let ?B = "with_commas (layout_items xs)"
    have B: "?B \<noteq> []" using False by (rule layout_items_nonempty)
    have IH: "body = join_at (Suc lvl) ?B" using "6.IH" [OF False "6.prems"(1) body [folded "6.prems"(1)]] .
    have "join_at lvl (layout (PList xs)) = join_at lvl (''['' # (shift ?B @ ['']'']))"
      using False by simp
    also have "\<dots> = ''['' @ newline_indent pretty_encoder lvl @ join_at lvl (shift ?B @ ['']''])"
      by (simp add: join_at_Cons)
    also have "join_at lvl (shift ?B @ ['']''])
        = join_at lvl (shift ?B) @ newline_indent pretty_encoder lvl @ '']''"
      using B by (simp add: join_at_append shift_def)
    also have "join_at lvl (shift ?B) = ''  '' @ join_at (Suc lvl) ?B"
      using B by (rule join_at_shift)
    finally show ?thesis unfolding s IH by (simp add: newline_indent_Suc)
  qed
next
  case (7 c lvl xs)
  show ?case
  proof (cases "xs = []")
    case True
    then show ?thesis using "7.prems"(2) [unfolded "7.prems"(1)] by auto
  next
    case False
    then obtain body where body: "iterencode_items pretty_encoder (Suc lvl) xs = Inr body"
      and s: "s = ''['' @ newline_indent pretty_encoder (Suc lvl) @ body
                  @ newline_indent pretty_encoder lvl @ '']''"
      using "7.prems"(2) [unfolded "7.prems"(1)] by (auto split: sum.splits)
    let ?B = "with_commas (layout_items xs)"
    have B: "?B \<noteq> []" using False by (rule layout_items_nonempty)
    have IH: "body = join_at (Suc lvl) ?B" using "7.IH" [OF False "7.prems"(1) body [folded "7.prems"(1)]] .
    have "join_at lvl (layout (PTuple xs)) = join_at lvl (''['' # (shift ?B @ ['']'']))"
      using False by simp
    also have "\<dots> = ''['' @ newline_indent pretty_encoder lvl @ join_at lvl (shift ?B @ ['']''])"
      by (simp add: join_at_Cons)
    also have "join_at lvl (shift ?B @ ['']''])
        = join_at lvl (shift ?B) @ newline_indent pretty_encoder lvl @ '']''"
      using B by (simp add: join_at_append shift_def)
    also have "join_at lvl (shift ?B) = ''  '' @ join_at (Suc lvl) ?B"
      using B by (rule join_at_shift)
    finally show ?thesis unfolding s IH by (simp add: newline_indent_Suc)
  qed
next
  case (8 c lvl kvs)
  show ?case
  proof (cases "kvs = []")
    case True
    then show ?thesis using "8.prems"(2) [unfolded "8.prems"(1)] by auto
  next
    case False
    then obtain body where body: "iterencode_members pretty_encoder (Suc lvl) kvs = Inr body"
      and s: "s = ''{'' @ newline_indent pretty_encoder (Suc lvl) @ body
                  @ newline_indent pretty_encoder lvl @ ''}''"
      using "8.prems"(2) [unfolded "8.prems"(1)] by (auto split: sum.splits)
    let ?B = "with_commas (layout_members kvs)"
    have B: "?B \<noteq> []" using False by (rule layout_members_nonempty)
    have IH: "body = join_at (Suc lvl) ?B" using "8.IH" [OF False "8.prems"(1) body [folded "8.prems"(1)]] .
    have "join_at lvl (layout (PDict kvs)) = join_at lvl (''{'' # (shift ?B @ [''}'']))"
      using False by simp
    also have "\<dots> = ''{'' @ newline_indent pretty_encoder lvl @ join_at lvl (shift ?B @ [''}''])"
      by (simp add: join_at_Cons)
    also have "join_at lvl (shift ?B @ [''}''])
        = join_at lvl (shift ?B) @ newline_indent pretty_encoder lvl @ ''}''"
      using B by (simp add: join_at_append shift_def)
    also have "join_at lvl (shift ?B) = ''  '' @ join_at (Suc lvl) ?B"
      using B by (rule join_at_shift)
    finally show ?thesis unfolding s IH by (simp add: newline_indent_Suc)
  qed
next
  case (9 c lvl t)
  then show ?case by simp
next
  case (10 c lvl)
  then show ?case by simp
next
  case (11 c lvl x xs)
  obtain sx where x: "iterencode pretty_encoder lvl x = Inr sx"
    using "11.prems"(2) [unfolded "11.prems"(1)] by (auto split: sum.splits)
  have IHx: "sx = join_at lvl (layout x)" using "11.IH"(1) [OF "11.prems"(1) x [folded "11.prems"(1)]] .
  show ?case
  proof (cases "xs = []")
    case True
    then show ?thesis using "11.prems"(2) [unfolded "11.prems"(1)] x IHx by simp
  next
    case False
    then obtain r0 where r0: "iterencode_items pretty_encoder lvl xs = Inr r0"
      and s: "s = sx @ item_separator pretty_encoder @ newline_indent pretty_encoder lvl @ r0"
      using "11.prems"(2) [unfolded "11.prems"(1)] x by (auto split: sum.splits)
    have IHxs: "r0 = join_at lvl (with_commas (layout_items xs))"
      using "11.IH"(2) [OF x [folded "11.prems"(1)] False "11.prems"(1) r0 [folded "11.prems"(1)]] .
    have "join_at lvl (with_commas (layout_items (x # xs)))
          = join_at lvl (layout x) @ '','' @ newline_indent pretty_encoder lvl
            @ join_at lvl (with_commas (layout_items xs))"
      using join_at_with_commas [OF layout_nonempty, of "layout_items xs" lvl x]
        layout_items_nonempty [OF False] False
      by (cases xs) auto
    then show ?thesis unfolding s IHx IHxs by (simp add: pretty_separators)
  qed
next
  case (12 c lvl)
  then show ?case by simp
next
  case (13 c lvl k v kvs)
  obtain ks where k: "checked (too_deep c lvl k) (key_text c k) = Inr ks"
    using "13.prems"(2) by (auto split: sum.splits)
  have km: "key_text minimal_encoder k = Inr ks" using k by (auto intro: key_text_unlimited)
  note k' = k [unfolded "13.prems"(1)]
  obtain sv where v: "iterencode pretty_encoder lvl v = Inr sv"
    using "13.prems"(2) [unfolded "13.prems"(1)] k' by (auto split: sum.splits)
  have IHv: "sv = join_at lvl (layout v)" using "13.IH"(1) [OF k "13.prems"(1) v [folded "13.prems"(1)]] .
  let ?b = "after_key (key_literal k) (layout v)"
  have b: "join_at lvl ?b = encode_basestring_ascii ks @ '': '' @ sv"
    unfolding IHv using layout_nonempty [of v] km
    by (simp add: join_at_after_key key_literal_def)
  have bne: "?b \<noteq> []" by (simp add: after_key_def)
  show ?case
  proof (cases "kvs = []")
    case True
    then show ?thesis using "13.prems"(2) [unfolded "13.prems"(1)] k' v b by (simp add: pretty_separators)
  next
    case False
    then obtain r0 where r0: "iterencode_members pretty_encoder lvl kvs = Inr r0"
      and s: "s = encode_basestring_ascii ks @ key_separator pretty_encoder @ sv
                  @ item_separator pretty_encoder @ newline_indent pretty_encoder lvl @ r0"
      using "13.prems"(2) [unfolded "13.prems"(1)] k' v by (auto split: sum.splits)
    have IHkvs: "r0 = join_at lvl (with_commas (layout_members kvs))"
      using "13.IH"(2) [OF k v [folded "13.prems"(1)] False "13.prems"(1) r0 [folded "13.prems"(1)]] .
    have "join_at lvl (with_commas (layout_members ((k, v) # kvs)))
          = join_at lvl ?b @ '','' @ newline_indent pretty_encoder lvl
            @ join_at lvl (with_commas (layout_members kvs))"
      using join_at_with_commas [OF bne, of "layout_members kvs" lvl]
        layout_members_nonempty [OF False] False
      by (cases kvs) auto
    then show ?thesis unfolding s IHkvs b by (simp add: pretty_separators)
  qed
qed

lemma space_plain:
  "\<forall>c\<in>set t. c \<noteq> CHR 0x22 \<and> c \<noteq> CHR '','' \<and> c \<noteq> CHR '':'' \<Longrightarrow>
   space_separators (t @ r) = t @ space_separators r"
  by (induction t) auto

lemma space_in_plain:
  "\<forall>c\<in>set t. c \<noteq> CHR 0x22 \<and> c \<noteq> CHR 0x5C \<Longrightarrow> r \<noteq> [] \<Longrightarrow>
   space_in (t @ r) = t @ space_in r"
proof (induction t)
  case Nil
  then show ?case by simp
next
  case (Cons c t)
  then obtain d cs where "t @ r = d # cs" by (cases "t @ r") auto
  then show ?case using Cons by simp
qed

lemma space_in_escape:
  assumes "r \<noteq> []"
  shows "space_in (escape_char c @ r) = escape_char c @ space_in r"
proof -
  obtain d cs where r: "r = d # cs" using assms by (cases r) auto
  have u: "space_in (CHR 0x5C # CHR ''u'' # hex4 n @ t) = CHR 0x5C # CHR ''u'' # hex4 n @ space_in t"
    if "t \<noteq> []" for n t using space_in_plain [OF hex4_plain that, of n] by simp
  have uu: "space_in (CHR 0x5C # CHR ''u'' # hex4 n @ CHR 0x5C # CHR ''u'' # hex4 k @ r)
            = CHR 0x5C # CHR ''u'' # hex4 n @ CHR 0x5C # CHR ''u'' # hex4 k @ space_in r" for n k
    using u [of "CHR 0x5C # CHR ''u'' # hex4 k @ r" n] u [OF assms, of k] by simp
  have two: "space_in (CHR 0x5C # x # r) = CHR 0x5C # x # space_in r" for x
    by simp
  have one: "space_in (x # r) = x # space_in r" if "x \<noteq> CHR 0x22" "x \<noteq> CHR 0x5C" for x
    using that by (simp add: r)
  show ?thesis
  proof (cases "0x20 \<le> c \<and> c \<le> 0x7E \<and> c \<noteq> 0x22 \<and> c \<noteq> 0x5C")
    case True
    then have "escape_char c = [char_of c]" by (simp add: escape_char_def)
    then show ?thesis using one [OF printable_plain(1,2)] True by simp
  next
    case False
    then show ?thesis
      unfolding escape_char_def using u [OF assms] uu two by auto
  qed
qed

lemma space_in_escaped:
  "r \<noteq> [] \<Longrightarrow> space_in (concat (map escape_char s) @ r) = concat (map escape_char s) @ space_in r"
  by (induction s) (simp_all add: space_in_escape)

lemma space_in_quote: "space_in (CHR 0x22 # r) = CHR 0x22 # space_separators r"
  by (cases r) simp_all

lemma space_string:
  "space_separators (encode_basestring_ascii s @ r) = encode_basestring_ascii s @ space_separators r"
  by (simp add: encode_basestring_ascii_def space_in_escaped space_in_quote)

lemma space_intstr: "space_separators (intstr i @ r) = intstr i @ space_separators r"
  by (rule space_plain) (use intstr_chars [of i] in auto)

lemma space_float: "space_separators (float_repr f @ r) = float_repr f @ space_separators r"
  by (rule space_plain) (rule plain_chars(2) [OF float_repr_plain])

lemma compact_newline_indent [simp]: "newline_indent compact_encoder lvl = []"
  by (simp add: newline_indent_def compact_encoder_def)

lemma compact_separators [simp]:
  "item_separator compact_encoder = '', ''" "key_separator compact_encoder = '': ''"
  by (simp_all add: compact_encoder_def)

lemma space_iterencode:
  "c = minimal_encoder \<Longrightarrow> iterencode c lvl v = Inr m \<Longrightarrow>
     (\<forall>l. iterencode compact_encoder l v = Inr (space_separators m))
     \<and> (\<forall>r. space_separators (m @ r) = space_separators m @ space_separators r)"
  "c = minimal_encoder \<Longrightarrow> iterencode_items c lvl xs = Inr m \<Longrightarrow>
     (\<forall>l. iterencode_items compact_encoder l xs = Inr (space_separators m))
     \<and> (\<forall>r. space_separators (m @ r) = space_separators m @ space_separators r)"
  "c = minimal_encoder \<Longrightarrow> iterencode_members c lvl kvs = Inr m \<Longrightarrow>
     (\<forall>l. iterencode_members compact_encoder l kvs = Inr (space_separators m))
     \<and> (\<forall>r. space_separators (m @ r) = space_separators m @ space_separators r)"
proof (induction c lvl v and c lvl xs and c lvl kvs arbitrary: m and m and m
    rule: iterencode_iterencode_items_iterencode_members.induct)
  case (1 c lvl)
  then show ?case by auto
next
  case (2 c lvl b)
  then show ?case by auto
next
  case (3 c lvl i)
  then show ?case using space_intstr [of i] space_intstr [of i "[]"] by auto
next
  case (4 c lvl f)
  then show ?case using space_float [of f] space_float [of f "[]"] by auto
next
  case (5 c lvl str)
  then show ?case using space_string [of str] space_string [of str "[]"] by auto
next
  case (6 c lvl xs)
  note c = "6.prems"(1)
  show ?case
  proof (cases "xs = []")
    case True
    then show ?thesis using "6.prems" by auto
  next
    case False
    then obtain body where body: "iterencode_items c (Suc lvl) xs = Inr body"
      and m: "m = ''['' @ body @ '']''"
      using "6.prems"(2) c by (auto split: sum.splits)
    note IH = "6.IH" [OF False c body]
    have st: "space_separators (m @ r) = ''['' @ space_separators body @ '']'' @ space_separators r"
      for r unfolding m using IH by simp
    show ?thesis using IH st [of "[]"] st False by simp
  qed
next
  case (7 c lvl xs)
  note c = "7.prems"(1)
  show ?case
  proof (cases "xs = []")
    case True
    then show ?thesis using "7.prems" by auto
  next
    case False
    then obtain body where body: "iterencode_items c (Suc lvl) xs = Inr body"
      and m: "m = ''['' @ body @ '']''"
      using "7.prems"(2) c by (auto split: sum.splits)
    note IH = "7.IH" [OF False c body]
    have st: "space_separators (m @ r) = ''['' @ space_separators body @ '']'' @ space_separators r"
      for r unfolding m using IH by simp
    show ?thesis using IH st [of "[]"] st False by simp
  qed
next
  case (8 c lvl kvs)
  note c = "8.prems"(1)
  show ?case
  proof (cases "kvs = []")
    case True
    then show ?thesis using "8.prems" by auto
  next
    case False
    then obtain body where body: "iterencode_members c (Suc lvl) kvs = Inr body"
      and m: "m = ''{'' @ body @ ''}''"
      using "8.prems"(2) c by (auto split: sum.splits)
    note IH = "8.IH" [OF False c body]
    have st: "space_separators (m @ r) = ''{'' @ space_separators body @ ''}'' @ space_separators r"
      for r unfolding m using IH by simp
    show ?thesis using IH st [of "[]"] st False by simp
  qed
next
  case (9 c lvl t)
  then show ?case by simp
next
  case (10 c lvl)
  then show ?case by simp
next
  case (11 c lvl x xs)
  note c = "11.prems"(1)
  obtain sx where x: "iterencode c lvl x = Inr sx"
    using "11.prems"(2) by (auto split: sum.splits)
  note IHx = "11.IH"(1) [OF c x]
  show ?case
  proof (cases "xs = []")
    case True
    then have "m = sx" using "11.prems"(2) x by simp
    then show ?thesis using IHx True by simp
  next
    case False
    then obtain r0 where r0: "iterencode_items c lvl xs = Inr r0"
      and m: "m = sx @ '','' @ r0"
      using "11.prems"(2) x c by (auto split: sum.splits)
    note IHxs = "11.IH"(2) [OF x False c r0]
    have st: "space_separators (m @ r)
              = space_separators sx @ '', '' @ space_separators r0 @ space_separators r" for r
      unfolding m using IHx IHxs by simp
    show ?thesis using IHx IHxs st [of "[]"] st False by simp
  qed
next
  case (12 c lvl)
  then show ?case by simp
next
  case (13 c lvl k v kvs)
  note c = "13.prems"(1)
  obtain ks where k: "checked (too_deep c lvl k) (key_text c k) = Inr ks"
    using "13.prems"(2) by (auto split: sum.splits)
  have kc: "key_text compact_encoder k = Inr ks" using k by (auto intro: key_text_unlimited)
  obtain sv where v: "iterencode c lvl v = Inr sv"
    using "13.prems"(2) k by (auto split: sum.splits)
  note IHv = "13.IH"(1) [OF k c v]
  show ?case
  proof (cases "kvs = []")
    case True
    then have m: "m = encode_basestring_ascii ks @ '':'' @ sv"
      using "13.prems"(2) k v c by simp
    have st: "space_separators (m @ r)
              = encode_basestring_ascii ks @ '': '' @ space_separators sv @ space_separators r"
      for r unfolding m using IHv by (simp add: space_string)
    show ?thesis using IHv st [of "[]"] st True kc by simp
  next
    case False
    then obtain r0 where r0: "iterencode_members c lvl kvs = Inr r0"
      and m: "m = encode_basestring_ascii ks @ '':'' @ sv @ '','' @ r0"
      using "13.prems"(2) k v c by (auto split: sum.splits)
    note IHkvs = "13.IH"(2) [OF k v False c r0]
    have st: "space_separators (m @ r)
              = encode_basestring_ascii ks @ '': '' @ space_separators sv
                @ '', '' @ space_separators r0 @ space_separators r" for r
      unfolding m using IHv IHkvs by (simp add: space_string)
    show ?thesis using IHv IHkvs st [of "[]"] st False kc by simp
  qed
qed

lemma replicate_spaces:
  "replicate 2 c = [c, c]" "replicate 4 c = [c, c, c, c]"
  by (simp_all add: eval_nat_numeral)

lemma of_char_neq:
  fixes c d :: char
  shows "c \<noteq> d \<Longrightarrow> (of_char c :: nat) \<noteq> of_char d"
  by (simp only: of_char_eq_iff not_False_eq_True)

lemma escape_char_ascii:
  fixes c :: char
  assumes "0x20 \<le> (of_char c :: nat)" "(of_char c :: nat) \<le> 0x7E" "c \<noteq> CHR 0x22" "c \<noteq> CHR 0x5C"
  shows "escape_char (of_char c) = [c]"
proof -
  have "(of_char c :: nat) \<noteq> 0x22" "(of_char c :: nat) \<noteq> 0x5C"
    using of_char_neq [OF assms(3)] of_char_neq [OF assms(4)] by simp_all
  then show ?thesis using assms(1,2) by (simp add: escape_char_def)
qed

lemma encode_ascii:
  assumes "\<forall>c\<in>set s. 0x20 \<le> (of_char c :: nat) \<and> (of_char c :: nat) \<le> 0x7E
                    \<and> c \<noteq> CHR 0x22 \<and> c \<noteq> CHR 0x5C"
  shows "encode_basestring_ascii (ustr s) = CHR 0x22 # s @ [CHR 0x22]"
proof -
  have "concat (map escape_char (ustr s)) = s"
    using assms by (induction s) (simp_all add: ustr_def escape_char_ascii)
  then show ?thesis by (simp add: encode_basestring_ascii_def)
qed

section \<open>Directories, and one call of the writer\<close>

lemma os_mkdir_raises: "os_mkdir fs p = Inl e \<Longrightarrow> is_IOError e"
  by (auto simp: os_mkdir_def split: if_splits option.splits node.splits)

lemma mkdir_exist_ok_raises: "mkdir_exist_ok fs p = Inl e \<Longrightarrow> is_IOError e"
  by (auto simp: mkdir_exist_ok_def split: sum.splits if_splits dest: os_mkdir_raises)

lemma mkdir_parents_raises: "mkdir_parents fs p = Inl e \<Longrightarrow> is_IOError e"
proof (induction fs p rule: mkdir_parents.induct)
  case (1 fs p)
  show ?case
  proof (cases "os_mkdir fs p")
    case (Inr fs')
    with "1.prems" show ?thesis by (subst (asm) mkdir_parents.simps) simp
  next
    case (Inl e0)
    have io: "is_IOError e0" using Inl by (rule os_mkdir_raises)
    show ?thesis
    proof (cases "e0 = FileNotFoundError \<and> p \<noteq> []")
      case True
      then show ?thesis
        using "1.prems" "1.IH" [OF Inl] Inl
        by (subst (asm) mkdir_parents.simps)
           (auto split: sum.splits dest: mkdir_exist_ok_raises)
    next
      case False
      then show ?thesis
        using "1.prems" Inl io
        by (subst (asm) mkdir_parents.simps) (auto split: if_splits)
    qed
  qed
qed

lemma open_write_raises: "open_write fs p t = Inl e \<Longrightarrow> is_IOError e"
  by (auto simp: open_write_def split: option.splits node.splits)

lemma os_mkdir_is_dir: "os_mkdir fs p = Inr fs' \<Longrightarrow> is_dir fs' p"
  by (auto simp: os_mkdir_def is_dir_def lookup_def split: if_splits option.splits node.splits)

lemma mkdir_exist_ok_is_dir: "mkdir_exist_ok fs p = Inr fs' \<Longrightarrow> is_dir fs' p"
  by (auto simp: mkdir_exist_ok_def split: sum.splits if_splits dest: os_mkdir_is_dir)

lemma mkdir_parents_is_dir: "mkdir_parents fs p = Inr fs' \<Longrightarrow> is_dir fs' p"
  by (subst (asm) mkdir_parents.simps)
     (auto split: sum.splits if_splits dest: os_mkdir_is_dir mkdir_exist_ok_is_dir)

lemma mkdir_parents_existing: "is_dir fs p \<Longrightarrow> mkdir_parents fs p = Inr fs"
  by (subst mkdir_parents.simps) (simp add: os_mkdir_def is_dir_def)

lemma is_dir_write: "is_dir fs od \<Longrightarrow> is_dir (fs(od @ [f] \<mapsto> File s)) od"
  by (auto simp: is_dir_def lookup_def)

lemma os_mkdir_keeps: "os_mkdir fs p = Inr fs' \<Longrightarrow> fs q \<noteq> None \<Longrightarrow> fs' q = fs q"
  by (auto simp: os_mkdir_def lookup_def split: if_splits option.splits node.splits)

lemma mkdir_exist_ok_keeps:
  "mkdir_exist_ok fs p = Inr fs' \<Longrightarrow> fs q \<noteq> None \<Longrightarrow> fs' q = fs q"
  by (auto simp: mkdir_exist_ok_def split: sum.splits if_splits dest: os_mkdir_keeps)

lemma os_mkdir_grows: "os_mkdir fs p = Inr fs' \<Longrightarrow> fs q \<noteq> None \<Longrightarrow> fs' q \<noteq> None"
  by (auto simp: os_mkdir_def lookup_def split: if_splits option.splits node.splits)

lemma mkdir_parents_keeps:
  "mkdir_parents fs p = Inr fs' \<Longrightarrow> fs q \<noteq> None \<Longrightarrow> fs' q = fs q"
proof (induction fs p arbitrary: fs' rule: mkdir_parents.induct)
  case (1 fs p)
  show ?case
  proof (cases "os_mkdir fs p")
    case (Inr fs0)
    then have "fs' = fs0" using "1.prems"(1) by (subst (asm) mkdir_parents.simps) simp
    then show ?thesis using os_mkdir_keeps [OF Inr "1.prems"(2)] by simp
  next
    case (Inl e0)
    show ?thesis
    proof (cases "e0 = FileNotFoundError")
      case False
      then have "fs' = fs"
        using "1.prems"(1) Inl by (subst (asm) mkdir_parents.simps) (simp split: if_splits)
      then show ?thesis by simp
    next
      case True
      then have ne: "p \<noteq> []"
        using "1.prems"(1) Inl by (subst (asm) mkdir_parents.simps) (simp split: if_splits)
      obtain fs1 where par: "mkdir_parents fs (butlast p) = Inr fs1"
        and fin: "mkdir_exist_ok fs1 p = Inr fs'"
        using "1.prems"(1) Inl True ne
        by (subst (asm) mkdir_parents.simps) (auto split: sum.splits)
      have "fs1 q = fs q" using "1.IH" [OF Inl True ne par "1.prems"(2)] .
      then show ?thesis using mkdir_exist_ok_keeps [OF fin, of q] "1.prems"(2) by simp
    qed
  qed
qed

lemma written_text_raises:
  "written_text py pr fs p d = Inl e \<Longrightarrow> caught e \<or> e = RecursionError"
  by (auto simp: written_text_def caught_def split: sum.splits if_splits dest: json_dumps_raises)

lemma written_text_escapes:
  "written_text py pr fs p d = Inl e \<Longrightarrow> \<not> caught e \<Longrightarrow>
   e = RecursionError \<and> json_dumps py pr d = Inl RecursionError"
  by (auto simp: written_text_def caught_def split: sum.splits if_splits dest: json_dumps_raises)

lemma written_text_write:
  "fs p \<noteq> Some Dir \<Longrightarrow>
   written_text py pr (fs(p \<mapsto> File s)) q d = written_text py pr fs q d"
  by (auto simp: written_text_def split: sum.splits)

lemma written_text_not_dir: "written_text py pr fs p d = Inr s \<Longrightarrow> fs p \<noteq> Some Dir"
  by (auto simp: written_text_def split: sum.splits if_splits)

lemma write_json_file_in_dir:
  assumes "is_dir (files w) od"
  shows "write_json_file py d (od @ [f]) pr w =
     (case written_text py pr (files w) (od @ [f]) d of
        Inl e \<Rightarrow> on_error e (od @ [f]) w
      | Inr s \<Rightarrow> (Inr True, w\<lparr>files := (files w)(od @ [f] \<mapsto> File s)\<rparr>))"
proof (cases "json_dumps py pr d")
  case (Inl e)
  then show ?thesis by (simp add: write_json_file_def written_text_def)
next
  case (Inr s)
  have par: "lookup (files w) od = Some Dir" using assms by (simp add: is_dir_def)
  show ?thesis
    using Inr par
    by (cases "files w (od @ [f])")
       (auto simp: write_json_file_def written_text_def mkdir_parents_existing [OF assms]
          open_write_def lookup_def split: node.splits)
qed

lemma on_error_simps:
  "caught e \<Longrightarrow> on_error e p w = (Inr False, emit (Err_write p e) w)"
  "\<not> caught e \<Longrightarrow> on_error e p w = (Inl e, w)"
  by (simp_all add: on_error_def)

lemma fit_item_simps:
  "fit_store py pr od (f, d) fs =
     (if d = PNone then fs
      else case written_text py pr fs (od @ [f]) d of
             Inl e \<Rightarrow> fs
           | Inr s \<Rightarrow> fs(od @ [f] \<mapsto> File s))"
  "fit_report py pr fs od (f, d) =
     (if d = PNone then Warn_missing f
      else case written_text py pr fs (od @ [f]) d of
             Inl e \<Rightarrow> Err_write (od @ [f]) e
           | Inr s \<Rightarrow> Out_fit f (od @ [f]))"
  "fit_ok py pr fs od (f, d) = (d = PNone \<or> \<not> isl (written_text py pr fs (od @ [f]) d))"
  "escapes py pr (f, d) = (d \<noteq> PNone \<and> json_dumps py pr d = Inl RecursionError)"
  by (auto simp: fit_store_def fit_report_def fit_ok_def escapes_def split: sum.splits)

lemma attempted_simps:
  "attempted py pr [] = []"
  "attempted py pr (item # items) = (if escapes py pr item then [] else item # attempted py pr items)"
  by (simp_all add: attempted_def)

lemma attempted_all: "attempted py pr items = items \<longleftrightarrow> (\<forall>item\<in>set items. \<not> escapes py pr item)"
  by (auto simp: attempted_def takeWhile_eq_all_conv)

lemma attempted_subset: "set (attempted py pr items) \<subseteq> set items"
  by (auto simp: attempted_def dest: set_takeWhileD)

text \<open>
  The loop, once the output directory exists: it goes through the entries before the first
  one that escapes, and ends with the flag or with that exception.
\<close>

lemma write_fit_files_char:
  "is_dir (files w) od \<Longrightarrow>
   write_fit_files py od pr items success w =
     (if attempted py pr items = items
      then Inr (success \<and> list_all (fit_ok py pr (files w) od) items)
      else Inl RecursionError,
      w\<lparr>files := fold (fit_store py pr od) (attempted py pr items) (files w),
        printed := printed w @ map (fit_report py pr (files w) od) (attempted py pr items)\<rparr>)"
proof (induction items arbitrary: success w)
  case Nil
  then show ?case by (simp add: attempted_simps)
next
  case (Cons item items)
  obtain f d where item: "item = (f, d)" by (cases item)
  show ?case
  proof (cases "d = PNone")
    case True
    let ?w' = "emit (Warn_missing f) w"
    have step: "write_fit_files py od pr (item # items) success w
                = write_fit_files py od pr items success ?w'"
      using True item by simp
    have fw: "files ?w' = files w" "printed ?w' = printed w @ [Warn_missing f]"
      by (simp_all add: emit_def)
    have dir': "is_dir (files ?w') od" using Cons.prems by (simp add: fw)
    have head: "fit_ok py pr (files w) od item" "fit_store py pr od item (files w) = files w"
      "fit_report py pr (files w) od item = Warn_missing f" "\<not> escapes py pr item"
      using True item by (simp_all add: fit_item_simps)
    show ?thesis
      unfolding step Cons.IH [OF dir'] fw using head by (simp add: emit_def attempted_simps)
  next
    case False
    show ?thesis
    proof (cases "written_text py pr (files w) (od @ [f]) d")
      case (Inl e)
      show ?thesis
      proof (cases "caught e")
        case True
        let ?w' = "emit (Err_write (od @ [f]) e) w"
        have ne: "\<not> escapes py pr item"
          using Inl True item
          by (auto simp: fit_item_simps written_text_def caught_def split: sum.splits)
        have step: "write_fit_files py od pr (item # items) success w
                    = write_fit_files py od pr items False ?w'"
          using False item Inl True
          by (simp add: write_json_file_in_dir [OF Cons.prems] Let_def on_error_simps)
        have fw: "files ?w' = files w" "printed ?w' = printed w @ [Err_write (od @ [f]) e]"
          by (simp_all add: emit_def)
        have dir': "is_dir (files ?w') od" using Cons.prems by (simp add: fw)
        have head: "\<not> fit_ok py pr (files w) od item"
          "fit_store py pr od item (files w) = files w"
          "fit_report py pr (files w) od item = Err_write (od @ [f]) e"
          using False item Inl by (simp_all add: fit_item_simps)
        show ?thesis
          unfolding step Cons.IH [OF dir'] fw using head ne
          by (auto simp: emit_def attempted_simps)
      next
        case nc: False
        have esc: "escapes py pr item" "e = RecursionError"
          using written_text_escapes [OF Inl nc] False item by (simp_all add: fit_item_simps)
        have step: "write_fit_files py od pr (item # items) success w = (Inl e, w)"
          using False item Inl nc
          by (simp add: write_json_file_in_dir [OF Cons.prems] Let_def on_error_simps)
        show ?thesis unfolding step using esc by (simp add: attempted_simps)
      qed
    next
      case (Inr s)
      let ?fs' = "(files w)(od @ [f] \<mapsto> File s)"
      let ?w' = "emit (Out_fit f (od @ [f])) (w\<lparr>files := ?fs'\<rparr>)"
      have ne: "\<not> escapes py pr item"
        using Inr item by (auto simp: fit_item_simps written_text_def split: sum.splits)
      have step: "write_fit_files py od pr (item # items) success w
                  = write_fit_files py od pr items success ?w'"
        using False item Inr by (simp add: write_json_file_in_dir [OF Cons.prems] Let_def)
      have fw: "files ?w' = ?fs'" "printed ?w' = printed w @ [Out_fit f (od @ [f])]"
        by (simp_all add: emit_def)
      have nd: "files w (od @ [f]) \<noteq> Some Dir" using Inr by (rule written_text_not_dir)
      have dir': "is_dir (files ?w') od"
        unfolding fw using Cons.prems by (rule is_dir_write)
      have same: "fit_ok py pr ?fs' od = fit_ok py pr (files w) od"
        "fit_report py pr ?fs' od = fit_report py pr (files w) od"
        by (rule ext, simp add: fit_ok_def fit_report_def
              written_text_write [of "files w" "od @ [f]", OF nd])+
      have head: "fit_ok py pr (files w) od item" "fit_store py pr od item (files w) = ?fs'"
        "fit_report py pr (files w) od item = Out_fit f (od @ [f])"
        using False item Inr by (simp_all add: fit_item_simps)
      show ?thesis
        unfolding step Cons.IH [OF dir'] fw same using head ne
        by (simp add: emit_def attempted_simps)
    qed
  qed
qed

section \<open>Loading and reading a module\<close>

lemma getattr_plain [simp]:
  "getattr (plain ns) name
   = (case ns name of None \<Rightarrow> Inl AttributeError | Some v \<Rightarrow> Inr v, plain ns)"
  by simp

lemma hasattr_plain [simp]: "hasattr (plain ns) name = (Inr (ns name \<noteq> None), plain ns)"
  by (simp add: hasattr_def split: option.splits)

lemma set_if_present_plain:
  "set_if_present name objects (plain ns)
   = (Inr (case ns name of None \<Rightarrow> objects | Some v \<Rightarrow> dict_set objects name v), plain ns)"
  by (simp add: set_if_present_def split: option.splits)

lemma extract_fit_objects_plain:
  "extract_fit_objects (plain ns) = (Inr (names_present ns), plain ns)"
  by (cases "ns ''BASE_TYPE''"; cases "ns ''FIELD_TYPE_TO_BASE_TYPE''";
      cases "ns ''BASE_TYPE_DEFINITIONS''"; cases "ns ''NUMERIC_FIELD_TYPES''")
     (simp_all add: extract_fit_objects_def set_if_present_plain names_present_def fit_names_def)


lemma names_present_map_of:
  "map_of (names_present ns) k = (if k \<in> set fit_names then ns k else None)"
  by (cases "ns ''BASE_TYPE''"; cases "ns ''FIELD_TYPE_TO_BASE_TYPE''";
      cases "ns ''BASE_TYPE_DEFINITIONS''"; cases "ns ''NUMERIC_FIELD_TYPES''")
     (auto simp: names_present_def fit_names_def)

lemma names_present_empty:
  "names_present ns = [] \<longleftrightarrow> (\<forall>n\<in>set fit_names. ns n = None)"
  by (cases "ns ''BASE_TYPE''"; cases "ns ''FIELD_TYPE_TO_BASE_TYPE''";
      cases "ns ''BASE_TYPE_DEFINITIONS''"; cases "ns ''NUMERIC_FIELD_TYPES''")
     (auto simp: names_present_def fit_names_def)

lemma fit_files_present:
  "fit_files (names_present ns) = map (\<lambda>(n, f). (f, attr_or_None ns n)) fit_outputs"
  by (simp add: fit_files_def fit_outputs_def dict_get_def attr_or_None_def
      names_present_map_of fit_names_def)

lemma find_module_None:
  "fst (find_module py fs p name) = Inr None \<Longrightarrow> snd (find_module py fs p name) = fs"
  by (auto simp: find_module_def Let_def split: if_splits option.splits prod.splits sum.splits)

section \<open>The run after the modules are loaded\<close>

lemma fit_store_dirs: "fit_store py pr od item fs q = Some Dir \<longleftrightarrow> fs q = Some Dir"
  by (auto simp: fit_store_def dest: written_text_not_dir split: sum.splits)

lemma written_text_dirs:
  "(fs' p = Some Dir \<longleftrightarrow> fs p = Some Dir) \<Longrightarrow>
   written_text py pr fs' p d = written_text py pr fs p d"
  by (auto simp: written_text_def split: sum.splits)

lemma fold_fit_store_dirs:
  "fold (fit_store py pr od) items fs q = Some Dir \<longleftrightarrow> fs q = Some Dir"
  by (induction items arbitrary: fs) (simp_all add: fit_store_dirs)

lemma fold_fit_store_other:
  "q \<notin> (\<lambda>item. od @ [fst item]) ` set items \<Longrightarrow> fold (fit_store py pr od) items fs q = fs q"
  by (induction items arbitrary: fs) (auto simp: fit_store_def split: sum.splits)

lemma fold_fit_store_at:
  "distinct (map fst items) \<Longrightarrow> (f, d) \<in> set items \<Longrightarrow>
   fold (fit_store py pr od) items fs (od @ [f]) =
     (if d = PNone then fs (od @ [f])
      else case written_text py pr fs (od @ [f]) d of
             Inl e \<Rightarrow> fs (od @ [f])
           | Inr s \<Rightarrow> Some (File s))"
proof (induction items arbitrary: fs)
  case Nil
  then show ?case by simp
next
  case (Cons item items)
  show ?case
  proof (cases "item = (f, d)")
    case True
    have "od @ [f] \<notin> (\<lambda>item. od @ [fst item]) ` set items"
      using Cons.prems(1) True by auto
    then have "fold (fit_store py pr od) (item # items) fs (od @ [f])
               = fit_store py pr od (f, d) fs (od @ [f])"
      using True by (simp add: fold_fit_store_other)
    then show ?thesis by (simp add: fit_item_simps split: sum.splits)
  next
    case False
    then have mem: "(f, d) \<in> set items" using Cons.prems(2) by simp
    have "f \<in> fst ` set items" using mem by force
    then have ne: "fst item \<noteq> f" using Cons.prems(1) by auto
    have dist: "distinct (map fst items)" using Cons.prems(1) by simp
    have wt: "written_text py pr (fit_store py pr od item fs) (od @ [f]) d
              = written_text py pr fs (od @ [f]) d"
      by (rule written_text_dirs) (rule fit_store_dirs)
    have at: "fit_store py pr od item fs (od @ [f]) = fs (od @ [f])"
      using ne by (simp add: fit_store_def split: sum.splits)
    show ?thesis
      using Cons.IH [OF dist mem, of "fit_store py pr od item fs"] unfolding wt at by simp
  qed
qed

lemma main_export:
  assumes "find_module py fs (arg_path a) ''profile'' = (Inr (Some (plain pm)), fs1)"
    and "pm ''Profile'' = Some prof"
    and "find_module py fs1 (arg_path a) ''fit'' = (Inr (Some (plain fm)), fs2)"
    and "names_present fm \<noteq> []"
    and "mkdir_parents fs2 (arg_output a) = Inr fs3"
  shows "main py a fs =
     (case written_text py (arg_pretty a) fs3 (arg_output a @ [''profile.json'']) prof of
        Inl e \<Rightarrow>
          (if caught e
           then (SysExit 1,
                 \<lparr>files = fs3, printed = [Err_write (arg_output a @ [''profile.json'']) e]\<rparr>)
           else (Uncaught e, \<lparr>files = fs3, printed = []\<rparr>))
      | Inr s \<Rightarrow>
          (if attempted py (arg_pretty a) (fit_files (names_present fm))
                \<noteq> fit_files (names_present fm)
           then Uncaught RecursionError
           else if list_all (fit_ok py (arg_pretty a) fs3 (arg_output a))
                     (fit_files (names_present fm))
           then Returned else SysExit 1,
           \<lparr>files = fold (fit_store py (arg_pretty a) (arg_output a))
                      (attempted py (arg_pretty a) (fit_files (names_present fm)))
                      (fs3(arg_output a @ [''profile.json''] \<mapsto> File s)),
            printed = Out_profile (arg_output a @ [''profile.json''])
                      # map (fit_report py (arg_pretty a) fs3 (arg_output a))
                          (attempted py (arg_pretty a) (fit_files (names_present fm)))
                      @ (if attempted py (arg_pretty a) (fit_files (names_present fm))
                              = fit_files (names_present fm)
                            \<and> list_all (fit_ok py (arg_pretty a) fs3 (arg_output a))
                                (fit_files (names_present fm))
                         then [Out_all_done (arg_output a)] else [])\<rparr>))"
proof -
  let ?od = "arg_output a" and ?pr = "arg_pretty a"
  let ?p = "?od @ [''profile.json'']"
  let ?items = "fit_files (names_present fm)"
  let ?w1 = "\<lparr>files = fs3, printed = []\<rparr>"
  have dir1: "is_dir (files ?w1) ?od" using assms(5) by (simp add: mkdir_parents_is_dir)
  have unfold: "main py a fs =
      (case write_json_file py prof ?p ?pr ?w1 of
         (Inl e, w') \<Rightarrow> (Uncaught e, w')
       | (Inr False, w') \<Rightarrow> (SysExit 1, w')
       | (Inr True, w') \<Rightarrow>
           (case write_fit_files py ?od ?pr ?items True (emit (Out_profile ?p) w') of
              (Inl e, w'') \<Rightarrow> (Uncaught e, w'')
            | (Inr True, w'') \<Rightarrow> (Returned, emit (Out_all_done ?od) w'')
            | (Inr False, w'') \<Rightarrow> (SysExit 1, w'')))"
    using assms by (simp add: main_def Let_def extract_fit_objects_plain)
  show ?thesis
  proof (cases "written_text py ?pr fs3 ?p prof")
    case (Inl e)
    then show ?thesis
      unfolding unfold write_json_file_in_dir [OF dir1]
      by (cases "caught e") (simp_all add: on_error_simps emit_def)
  next
    case (Inr s)
    let ?fs4 = "fs3(?p \<mapsto> File s)"
    let ?w2 = "emit (Out_profile ?p) (?w1\<lparr>files := ?fs4\<rparr>)"
    have nd: "fs3 ?p \<noteq> Some Dir" using Inr by (rule written_text_not_dir)
    have fw: "files ?w2 = ?fs4" "printed ?w2 = [Out_profile ?p]"
      by (simp_all add: emit_def)
    have dir2: "is_dir (files ?w2) ?od"
      unfolding fw using dir1 by (simp add: is_dir_write)
    have same: "fit_ok py ?pr ?fs4 ?od = fit_ok py ?pr fs3 ?od"
      "fit_report py ?pr ?fs4 ?od = fit_report py ?pr fs3 ?od"
      by (rule ext, simp add: fit_ok_def fit_report_def
            written_text_write [of fs3 ?p, OF nd])+
    have step: "main py a fs =
      (case write_fit_files py ?od ?pr ?items True ?w2 of
              (Inl e, w'') \<Rightarrow> (Uncaught e, w'')
            | (Inr True, w'') \<Rightarrow> (Returned, emit (Out_all_done ?od) w'')
            | (Inr False, w'') \<Rightarrow> (SysExit 1, w''))"
      unfolding unfold write_json_file_in_dir [OF dir1] using Inr by simp
    show ?thesis
      unfolding step write_fit_files_char [OF dir2] fw same using Inr
      by (simp add: emit_def)
  qed
qed

lemma main_no_fit_module:
  assumes "find_module py fs (arg_path a) ''profile'' = (Inr (Some m), fs1)"
    and "fst (hasattr m ''Profile'') = Inr True"
    and "fst (find_module py fs1 (arg_path a) ''fit'') = Inr None"
  shows "main py a fs = (SysExit 1, \<lparr>files = fs1, printed = [Err_module ''fit'' (arg_path a)]\<rparr>)"
proof -
  obtain m' where h: "hasattr m ''Profile'' = (Inr True, m')"
    using assms(2) by (cases "hasattr m ''Profile''") auto
  have f: "find_module py fs1 (arg_path a) ''fit'' = (Inr None, fs1)"
    using assms(3) find_module_None [OF assms(3)]
    by (cases "find_module py fs1 (arg_path a) ''fit''") auto
  show ?thesis using assms(1) h f by (simp add: main_def)
qed

lemma main_no_objects:
  assumes "find_module py fs (arg_path a) ''profile'' = (Inr (Some (plain pm)), fs1)"
    and "pm ''Profile'' = Some prof"
    and "find_module py fs1 (arg_path a) ''fit'' = (Inr (Some (plain fm)), fs2)"
    and "names_present fm = []"
  shows "main py a fs = (SysExit 1, \<lparr>files = fs2, printed = [Err_no_fit_objects]\<rparr>)"
  using assms by (simp add: main_def extract_fit_objects_plain)

lemma main_mkdir_fails:
  assumes "find_module py fs (arg_path a) ''profile'' = (Inr (Some (plain pm)), fs1)"
    and "pm ''Profile'' = Some prof"
    and "find_module py fs1 (arg_path a) ''fit'' = (Inr (Some (plain fm)), fs2)"
    and "names_present fm \<noteq> []"
    and "mkdir_parents fs2 (arg_output a) = Inl e"
  shows "main py a fs = (Uncaught e, \<lparr>files = fs2, printed = []\<rparr>)"
  using assms by (simp add: main_def extract_fit_objects_plain)

section \<open>Concrete runs\<close>

lemma endswith_py: "endswith (m @ ''.py'') ''.py''"
  by (simp add: endswith_def)

lemma sample_find:
  assumes "fs [''sdk''] = Some Dir" "fs [''sdk'', n @ ''.py''] = Some (File src)"
  shows "find_module sample_python fs [''sdk''] n
     = (case map_of sample_sources src of
          None \<Rightarrow> (Inl SyntaxError, fs)
        | Some attrs \<Rightarrow>
            (Inr (Some (plain (map_of attrs))), write_cache fs [''sdk'', n @ ''.py''] src))"
proof -
  have l: "has_loader sample_python (n @ ''.py'')"
    using endswith_py [of n] by (simp add: has_loader_def)
  show ?thesis
    using assms l
    by (simp add: find_module_def path_exists_def is_dir_def lookup_def Let_def)
       (simp add: sample_python_def split: option.splits)
qed

lemma sample_loads:
  assumes "map_of sample_sources psrc = Some pa" "map_of sample_sources fsrc = Some fa"
  shows "find_module sample_python (sdk_dir psrc fsrc) [''sdk''] ''profile''
         = (Inr (Some (plain (map_of pa))),
            write_cache (sdk_dir psrc fsrc) [''sdk'', ''profile.py''] psrc)"
    and "find_module sample_python
           (write_cache (sdk_dir psrc fsrc) [''sdk'', ''profile.py''] psrc) [''sdk''] ''fit''
         = (Inr (Some (plain (map_of fa))), sdk_loaded psrc fsrc)"
proof -
  have a: "sdk_dir psrc fsrc [''sdk''] = Some Dir"
    "sdk_dir psrc fsrc [''sdk'', ''profile'' @ ''.py''] = Some (File psrc)"
    by (simp_all add: sdk_dir_def)
  show "find_module sample_python (sdk_dir psrc fsrc) [''sdk''] ''profile''
         = (Inr (Some (plain (map_of pa))),
            write_cache (sdk_dir psrc fsrc) [''sdk'', ''profile.py''] psrc)"
    using sample_find [OF a] assms(1) by simp
  let ?fs1 = "write_cache (sdk_dir psrc fsrc) [''sdk'', ''profile.py''] psrc"
  have b: "?fs1 [''sdk''] = Some Dir" "?fs1 [''sdk'', ''fit'' @ ''.py''] = Some (File fsrc)"
    by (simp_all add: sdk_dir_def write_cache_def cache_file_def)
  show "find_module sample_python ?fs1 [''sdk''] ''fit''
         = (Inr (Some (plain (map_of fa))), sdk_loaded psrc fsrc)"
    using sample_find [OF b] assms(2) by (simp add: sdk_loaded_def)
qed

lemma sdk_loaded_at:
  "sdk_loaded psrc fsrc (''out'' # q) = None"
  "sdk_loaded psrc fsrc [''sdk''] = Some Dir"
  "sdk_loaded psrc fsrc [''sdk'', ''profile.py''] = Some (File psrc)"
  "sdk_loaded psrc fsrc [''sdk'', ''fit.py''] = Some (File fsrc)"
  "sdk_loaded psrc fsrc [''sdk'', ''__pycache__''] = Some Dir"
  "sdk_loaded psrc fsrc [''sdk'', ''__pycache__'', ''profile.cpython-311.pyc'']
     = Some (File (''code of '' @ psrc))"
  "sdk_loaded psrc fsrc [''sdk'', ''__pycache__'', ''fit.cpython-311.pyc'']
     = Some (File (''code of '' @ fsrc))"
  by (simp_all add: sdk_loaded_def sdk_dir_def write_cache_def cache_file_def)

lemma sample_mkdir:
  "mkdir_parents (sdk_loaded psrc fsrc) [''out'']
   = Inr ((sdk_loaded psrc fsrc)([''out''] \<mapsto> Dir))"
  by (subst mkdir_parents.simps) (simp add: os_mkdir_def lookup_def sdk_loaded_at)

lemmas sample_eval =
  json_dumps_def newline_indent_def intstr_def int_repr_def show_nat.simps digit_char_def
  encode_ascii sample_python_def

lemma iterencode_nest:
  assumes td: "\<And>lvl v. too_deep c lvl v = (994 \<le> lvl \<and> is_container v)"
  shows "0 < n \<Longrightarrow> 994 < lvl + n \<Longrightarrow> iterencode c lvl (nest n v) = Inl RecursionError"
proof (induction n arbitrary: lvl)
  case 0
  then show ?case by simp
next
  case (Suc n)
  show ?case
  proof (cases "994 \<le> lvl")
    case True
    then show ?thesis by (simp add: td)
  next
    case False
    then have n: "0 < n" "994 < Suc lvl + n" using Suc.prems by simp_all
    show ?thesis using Suc.IH [OF n] False by (simp add: td)
  qed
qed

lemma json_dumps_deep:
  "json_dumps sample_python pr (nest 1000 v) = Inl RecursionError"
proof -
  have "iterencode c 0 (nest 1000 v) = Inl RecursionError"
    if "\<And>lvl v. too_deep c lvl v = (994 \<le> lvl \<and> is_container v)" for c
    using iterencode_nest [OF that, of 1000 0 v] by simp
  then show ?thesis by (simp add: json_dumps_def sample_python_def)
qed

lemma nest_not_None: "0 < n \<Longrightarrow> nest n v \<noteq> PNone"
  by (cases n) simp_all

section \<open>The extractor\<close>



section \<open>The JSON writer\<close>

text \<open>
  Claim C10, as the specification states it, fails for a value nested deeper than the
  recursion limit: \<^verbatim>\<open>json.dumps\<close> raises \<^verbatim>\<open>RecursionError\<close>, which the \<^verbatim>\<open>except\<close> clause of
  \<^verbatim>\<open>write_json_file\<close> does not name, so that the call does not return \<^verbatim>\<open>False\<close>: the exception
  leaves it, and no diagnostic is printed.
\<close>

theorem deep_value_escapes_writer_counterexample:
  "json_dumps sample_python False (nest 1000 (PInt 1)) = Inl RecursionError
   \<and> write_json_file sample_python (nest 1000 (PInt 1)) [''out'', ''profile.json''] False
        \<lparr>files = Map.empty, printed = []\<rparr>
      = (Inl RecursionError, \<lparr>files = Map.empty, printed = []\<rparr>)"
  by (simp add: json_dumps_deep write_json_file_def on_error_def caught_def)

text \<open>
  Claim C10, amended. When the serialization of the value raises, the file system is what
  it was: no directory has been created and the target has been neither created nor
  truncated, since \<^verbatim>\<open>json.dumps\<close> runs before \<^verbatim>\<open>mkdir\<close> and \<^verbatim>\<open>open\<close>. The exception is a
  \<^verbatim>\<open>TypeError\<close>, a \<^verbatim>\<open>ValueError\<close> or a \<^verbatim>\<open>RecursionError\<close>. For the first two
  \<^verbatim>\<open>write_json_file\<close> prints the one diagnostic and returns \<^verbatim>\<open>False\<close>; a \<^verbatim>\<open>RecursionError\<close>
  leaves it uncaught, with nothing printed.
\<close>

theorem write_json_file_unserializable:
  "json_dumps py pretty data = Inl e \<Longrightarrow>
     files (snd (write_json_file py data output_path pretty w)) = files w
     \<and> (e = TypeError \<or> e = ValueError \<or> e = RecursionError)
     \<and> (e \<noteq> RecursionError \<longrightarrow>
          write_json_file py data output_path pretty w
          = (Inr False, emit (Err_write output_path e) w))
     \<and> (e = RecursionError \<longrightarrow>
          write_json_file py data output_path pretty w = (Inl RecursionError, w))"
  by (frule json_dumps_raises)
     (auto simp: write_json_file_def on_error_def caught_def emit_def)

theorem write_json_file_unserializable_witness:
  "json_dumps sample_python True (PList [PInt 1, PObject ''set'']) = Inl TypeError
   \<and> write_json_file sample_python (PList [PInt 1, PObject ''set''])
        [''out'', ''profile.json''] True \<lparr>files = Map.empty, printed = []\<rparr>
      = (Inr False, \<lparr>files = Map.empty,
                     printed = [Err_write [''out'', ''profile.json''] TypeError]\<rparr>)
   \<and> files (snd (write_json_file sample_python (PList [PInt 1, PObject ''set''])
                    [''out'', ''profile.json''] True \<lparr>files = Map.empty, printed = []\<rparr>))
      = Map.empty"
proof -
  have h: "json_dumps sample_python True (PList [PInt 1, PObject ''set'']) = Inl TypeError"
    by (simp add: sample_eval)
  show ?thesis
    using h write_json_file_unserializable [OF h, of "[''out'', ''profile.json'']"
        "\<lparr>files = Map.empty, printed = []\<rparr>"]
    by (simp add: emit_def)
qed

section \<open>The order of loading and writing\<close>

text \<open>
  Claim C2, as the specification states it, fails. In the directory \<^verbatim>\<open>sdk\<close> that holds a
  loadable \<^verbatim>\<open>profile.py\<close> with a \<^verbatim>\<open>Profile\<close> and no \<^verbatim>\<open>fit.py\<close>, the run ends with exit
  code 1 and \<^verbatim>\<open>profile.json\<close> has not been written, nor the output directory made: all
  that the run has added to the file system is the byte code of \<^verbatim>\<open>profile.py\<close>, which the
  loader has written.
\<close>

theorem profile_only_run_counterexample:
  "find_module sample_python sdk_profile_only [''sdk''] ''profile''
     = (Inr (Some (plain (map_of [(''Profile'', PDict [(PStr (ustr ''a''), PInt 1)])]))),
        write_cache sdk_profile_only [''sdk'', ''profile.py''] ''Profile = dict(a=1)'')
   \<and> sdk_profile_only [''sdk'', ''fit.py''] = None
   \<and> exit_code (fst (main sample_python sample_args sdk_profile_only)) = 1
   \<and> files (snd (main sample_python sample_args sdk_profile_only)) [''out'', ''profile.json'']
       = None
   \<and> files (snd (main sample_python sample_args sdk_profile_only)) [''out''] = None
   \<and> files (snd (main sample_python sample_args sdk_profile_only))
       = sdk_profile_only
           ([''sdk'', ''__pycache__''] \<mapsto> Dir,
            [''sdk'', ''__pycache__'', ''profile.cpython-311.pyc'']
              \<mapsto> File ''code of Profile = dict(a=1)'')"
proof -
  have a: "sdk_profile_only [''sdk''] = Some Dir"
    "sdk_profile_only [''sdk'', ''profile'' @ ''.py''] = Some (File ''Profile = dict(a=1)'')"
    by (simp_all add: sdk_profile_only_def)
  let ?fs1 = "write_cache sdk_profile_only [''sdk'', ''profile.py''] ''Profile = dict(a=1)''"
  have p: "find_module sample_python sdk_profile_only [''sdk''] ''profile''
     = (Inr (Some (plain (map_of [(''Profile'', PDict [(PStr (ustr ''a''), PInt 1)])]))), ?fs1)"
    using sample_find [OF a] by (simp add: sample_sources_def)
  have f: "fst (find_module sample_python ?fs1 [''sdk''] ''fit'') = Inr None"
    by (simp add: find_module_def path_exists_def is_dir_def lookup_def Let_def
        write_cache_def cache_file_def sdk_profile_only_def)
  have m: "main sample_python sample_args sdk_profile_only
           = (SysExit 1, \<lparr>files = ?fs1, printed = [Err_module ''fit'' [''sdk'']]\<rparr>)"
    using main_no_fit_module [of sample_python sdk_profile_only sample_args _ ?fs1] p f
    by (simp add: sample_args_def)
  show ?thesis
    unfolding m p
    by (simp add: write_cache_def cache_file_def) (simp add: sdk_profile_only_def)
qed

text \<open>
  Claim C2, amended. When the profile module loads and has a \<^verbatim>\<open>Profile\<close> and the fit
  module is not found, the run ends with \<^verbatim>\<open>sys.exit(1)\<close> after the one diagnostic about
  the fit module, and \<^verbatim>\<open>main\<close> has written nothing: the file system is the one that
  loading the profile module left, since \<^verbatim>\<open>main\<close> loads both modules before it creates
  the output directory or any file.
\<close>

theorem missing_fit_module_writes_nothing:
  assumes "find_module py fs (arg_path a) ''profile'' = (Inr (Some m), fs1)"
    and "fst (hasattr m ''Profile'') = Inr True"
    and "fst (find_module py fs1 (arg_path a) ''fit'') = Inr None"
  shows "main py a fs = (SysExit 1, \<lparr>files = fs1, printed = [Err_module ''fit'' (arg_path a)]\<rparr>)"
  using assms by (rule main_no_fit_module)

theorem missing_fit_module_writes_nothing_witness:
  "find_module sample_python sdk_profile_only (arg_path sample_args) ''profile''
     = (Inr (Some (plain (map_of [(''Profile'', PDict [(PStr (ustr ''a''), PInt 1)])]))),
        write_cache sdk_profile_only [''sdk'', ''profile.py''] ''Profile = dict(a=1)'')
   \<and> fst (hasattr (plain (map_of [(''Profile'', PDict [(PStr (ustr ''a''), PInt 1)])])) ''Profile'')
       = Inr True
   \<and> fst (find_module sample_python
             (write_cache sdk_profile_only [''sdk'', ''profile.py''] ''Profile = dict(a=1)'')
             (arg_path sample_args) ''fit'') = Inr None
   \<and> main sample_python sample_args sdk_profile_only
       = (SysExit 1,
          \<lparr>files = write_cache sdk_profile_only [''sdk'', ''profile.py''] ''Profile = dict(a=1)'',
           printed = [Err_module ''fit'' [''sdk'']]\<rparr>)"
proof -
  have a: "sdk_profile_only [''sdk''] = Some Dir"
    "sdk_profile_only [''sdk'', ''profile'' @ ''.py''] = Some (File ''Profile = dict(a=1)'')"
    by (simp_all add: sdk_profile_only_def)
  let ?fs1 = "write_cache sdk_profile_only [''sdk'', ''profile.py''] ''Profile = dict(a=1)''"
  let ?m = "plain (map_of [(''Profile'', PDict [(PStr (ustr ''a''), PInt 1)])])"
  have p: "find_module sample_python sdk_profile_only (arg_path sample_args) ''profile''
           = (Inr (Some ?m), ?fs1)"
    using sample_find [OF a] by (simp add: sample_sources_def sample_args_def)
  have h: "fst (hasattr ?m ''Profile'') = Inr True" by simp
  have f: "fst (find_module sample_python ?fs1 (arg_path sample_args) ''fit'') = Inr None"
    by (simp add: find_module_def path_exists_def is_dir_def lookup_def Let_def
        write_cache_def cache_file_def sdk_profile_only_def sample_args_def)
  show ?thesis
    using p h f missing_fit_module_writes_nothing [OF p h f] by (simp add: sample_args_def)
qed

section \<open>A module that does not load\<close>

text \<open>
  Claim C7 at a failing input. \<^verbatim>\<open>sdk/profile.py\<close> exists and its text is not Python.
  \<^verbatim>\<open>exec_module\<close> raises \<^verbatim>\<open>SyntaxError\<close>, which leaves \<^verbatim>\<open>find_module\<close> and then
  \<^verbatim>\<open>main\<close> uncaught: the run prints none of its diagnostics, and in particular not
  \<^verbatim>\<open>Error: Could not find or load profile module at sdk\<close>.
\<close>

theorem load_error_escapes_find_module:
  "find_module sample_python (sdk_dir ''def ('' ''BASE_TYPE = dict(enum=0)'') [''sdk''] ''profile''
     = (Inl SyntaxError, sdk_dir ''def ('' ''BASE_TYPE = dict(enum=0)'')
   \<and> main sample_python sample_args (sdk_dir ''def ('' ''BASE_TYPE = dict(enum=0)'')
     = (Uncaught SyntaxError,
        \<lparr>files = sdk_dir ''def ('' ''BASE_TYPE = dict(enum=0)'', printed = []\<rparr>)"
proof -
  let ?fs = "sdk_dir ''def ('' ''BASE_TYPE = dict(enum=0)''"
  have a: "?fs [''sdk''] = Some Dir" "?fs [''sdk'', ''profile'' @ ''.py''] = Some (File ''def ('')"
    by (simp_all add: sdk_dir_def)
  have p: "find_module sample_python ?fs [''sdk''] ''profile'' = (Inl SyntaxError, ?fs)"
    using sample_find [OF a] by (simp add: sample_sources_def)
  show ?thesis using p by (simp add: main_def sample_args_def)
qed

section \<open>Pretty and compact\<close>

text \<open>
  Claim C6, as the specification states it, fails for \<^verbatim>\<open>pretty=False\<close>:
  \<^verbatim>\<open>json.dumps(data)\<close> keeps the default separators \<^verbatim>\<open>', '\<close> and \<^verbatim>\<open>': '\<close>, so that the dict
  with the one key \<^verbatim>\<open>a\<close> bound to 1 is written with a space after the colon, which the
  minimal compact form does not have.
\<close>

theorem compact_form_not_minimal_counterexample:
  "json_dumps sample_python False (PDict [(PStr (ustr ''a''), PInt 1)])
     = Inr ([CHR ''{'', CHR 0x22, CHR ''a'', CHR 0x22] @ '': 1}'')
   \<and> minimal_compact_form (PDict [(PStr (ustr ''a''), PInt 1)])
     = Inr ([CHR ''{'', CHR 0x22, CHR ''a'', CHR 0x22] @ '':1}'')
   \<and> json_dumps sample_python False (PDict [(PStr (ustr ''a''), PInt 1)])
     \<noteq> minimal_compact_form (PDict [(PStr (ustr ''a''), PInt 1)])"
  by (simp add: minimal_compact_form_def minimal_encoder_def sample_eval)

text \<open>
  Claim C6, amended. For every value that \<^verbatim>\<open>json.dumps\<close> serializes, in whatever
  interpreter: with \<^verbatim>\<open>pretty=True\<close> the text is the layout in lines indented by two spaces
  for each level of nesting; with \<^verbatim>\<open>pretty=False\<close> it is one line, and it is the minimal
  compact form with one space after every comma and colon that separates; in both cases
  deleting the whitespace outside the string literals gives the minimal compact form.
\<close>

theorem json_dumps_layout:
  "json_dumps py pretty v = Inr s \<Longrightarrow>
     minimal_compact_form v = Inr (strip_ws s)
     \<and> (pretty \<longrightarrow> s = join_lines (layout v))
     \<and> (\<not> pretty \<longrightarrow> CHR 0x0A \<notin> set s \<and> s = space_separators (strip_ws s))"
proof -
  assume dumps: "json_dumps py pretty v = Inr s"
  let ?c = "if pretty then pretty_encoder else compact_encoder"
  have enc: "iterencode ?c 0 v = Inr s" using dumps by (rule json_dumps_encoders)
  have ok: "sep_ok ?c" by (simp add: sep_ok_encoders)
  have min: "iterencode minimal_encoder 0 v = Inr (strip_ws s)"
    using strip_iterencode(1) [OF ok enc] by simp
  have lay: "s = join_lines (layout v)" if pretty
    using pretty_layout(1) [OF refl, of 0 v s] enc that by (simp add: join_lines_def)
  have one: "CHR 0x0A \<notin> set s" if "\<not> pretty"
    using compact_no_newline(1) [of 0 v s] enc that by simp
  have sp: "s = space_separators (strip_ws s)" if "\<not> pretty"
    using space_iterencode(1) [OF refl min] enc that by simp
  show ?thesis using min lay one sp by (simp add: minimal_compact_form_def)
qed

theorem json_dumps_layout_witness:
  "json_dumps sample_python True (PDict [(PStr (ustr ''a''), PList [PInt 1, PInt 2])])
     = Inr (join_lines [''{'',
                        ''  '' @ [CHR 0x22, CHR ''a'', CHR 0x22] @ '': ['',
                        ''    1,'',
                        ''    2'',
                        ''  ]'',
                        ''}''])
   \<and> minimal_compact_form (PDict [(PStr (ustr ''a''), PList [PInt 1, PInt 2])])
     = Inr ([CHR ''{'', CHR 0x22, CHR ''a'', CHR 0x22] @ '':[1,2]}'')"
proof -
  have d: "json_dumps sample_python True (PDict [(PStr (ustr ''a''), PList [PInt 1, PInt 2])])
     = Inr (join_lines [''{'',
                        ''  '' @ [CHR 0x22, CHR ''a'', CHR 0x22] @ '': ['',
                        ''    1,'',
                        ''    2'',
                        ''  ]'',
                        ''}''])"
    by (simp add: sample_eval join_lines_def pretty_encoder_def replicate_spaces)
  show ?thesis
    using d json_dumps_layout [OF d] by (simp add: join_lines_def newline_indent_def pretty_encoder_def)
qed

end
